theory Spec2Isabelle
  imports Main "HOL-Library.Word"
begin

unbundle bit_operations_syntax

section \<open>The streaming downloader (downloadFile)\<close>

text \<open>
  Constants of \<^verbatim>\<open>downloader.go\<close>: at most five attempts per transfer and a pause of
  five seconds (kept in seconds) before the next attempt.
\<close>

definition maxRetries :: nat where
  "maxRetries = 5"

definition retryDelay :: nat where
  "retryDelay = 5"

definition StatusOK :: nat where
  "StatusOK = 200"

text \<open>
  Go errors. \<open>IoEOF\<close> and \<open>IoUnexpectedEOF\<close> are the sentinels of package io,
  \<open>ContextErr\<close> is the value of \<^verbatim>\<open>ctx.Err()\<close> once the context is done,
  \<open>StatusError attempt code\<close> is
  \<^verbatim>\<open>fmt.Errorf("download error after %d attempts, status code: %d", ...)\<close>,
  \<open>StreamError attempt err\<close> is
  \<^verbatim>\<open>fmt.Errorf("download error after %d attempts: %+v", ...)\<close>, and \<open>External\<close>
  stands for an error handed back by a collaborator (HTTP client, file system, ...).
\<close>

datatype go_error =
    IoEOF
  | IoUnexpectedEOF
  | ContextErr
  | StatusError nat nat
  | StreamError nat go_error
  | External string

text \<open>A destination path \<^verbatim>\<open>filepath.Join(dir, name)\<close>, kept symbolic.\<close>

datatype filepath = Join string string

text \<open>
  What the outside world does during one attempt: the result of \<^verbatim>\<open>client.Do\<close>,
  the status code of the response, the status code that \<^verbatim>\<open>resp.StatusCode()\<close>
  yields once the response has been given back with \<^verbatim>\<open>ReleaseResponse\<close> (the
  source formats its status error after releasing), the results of \<^verbatim>\<open>os.Create\<close>
  and \<^verbatim>\<open>NewFileWriterWithProgress\<close>, whether \<^verbatim>\<open>ctx.Done()\<close> is ready at the
  \<^verbatim>\<open>select\<close>, and the result of \<^verbatim>\<open>resp.BodyWriteTo\<close>.
\<close>

record attempt_env =
  do_err :: "go_error option"
  status :: nat
  status_released :: nat
  create_err :: "go_error option"
  writer_err :: "go_error option"
  ctx_done :: bool
  body_err :: "go_error option"

text \<open>
  The effects of a transfer, in program order. Every event carries the number of the
  attempt that performed it. \<open>OsCreate\<close> is recorded when \<^verbatim>\<open>os.Create\<close> succeeded,
  \<open>SpawnUpdateProgress\<close> is the \<^verbatim>\<open>go updateProgress(&downloaded)\<close> statement.
\<close>

datatype http_event =
    AcquireRequest nat
  | AcquireResponse nat
  | ClientDo nat string string
  | Sleep nat
  | CloseBodyStream nat
  | ReleaseRequest nat
  | ReleaseResponse nat
  | OsCreate nat filepath
  | SpawnUpdateProgress nat
  | FileClose nat
  | BodyWriteTo nat

text \<open>How one pass through the body of the \<^verbatim>\<open>for\<close> loop ends.\<close>

datatype control = Continue | Break | Return "go_error option"

text \<open>
  The \<^verbatim>\<open>select\<close> statement of an attempt. It either returns from the function
  (\<open>Inl\<close>) or falls through with the value of \<^verbatim>\<open>isError\<close> (\<open>Inr\<close>): the
  \<^verbatim>\<open>break\<close> of the retry branch leaves the \<^verbatim>\<open>select\<close>, not the loop.
\<close>

definition select_stream ::
  "attempt_env \<Rightarrow> bool \<Rightarrow> nat \<Rightarrow> http_event list \<times> (go_error option + bool)" where
  "select_stream e doRetries attempt =
     (let closeAll = [CloseBodyStream attempt, FileClose attempt,
                      ReleaseRequest attempt, ReleaseResponse attempt] in
      if ctx_done e then (closeAll, Inl (Some ContextErr))
      else
        (case body_err e of
           None \<Rightarrow> ([BodyWriteTo attempt], Inr False)
         | Some err \<Rightarrow>
             if err \<noteq> IoEOF then
               (if doRetries \<and> attempt < maxRetries
                then ([BodyWriteTo attempt] @ closeAll @ [Sleep retryDelay], Inr True)
                else ([BodyWriteTo attempt] @ closeAll, Inl (Some (StreamError attempt err))))
             else ([BodyWriteTo attempt], Inr False)))"

text \<open>The body of the \<^verbatim>\<open>for\<close> loop of \<^verbatim>\<open>downloadFile\<close>.\<close>

definition run_attempt ::
  "attempt_env \<Rightarrow> string \<Rightarrow> filepath \<Rightarrow> bool \<Rightarrow> nat \<Rightarrow> http_event list \<times> control" where
  "run_attempt e url dst doRetries attempt =
     (let acquire = [AcquireRequest attempt, AcquireResponse attempt,
                     ClientDo attempt ''GET'' url];
          release = [ReleaseRequest attempt, ReleaseResponse attempt] in
      case do_err e of
        Some err \<Rightarrow> (acquire @ release, Return (Some err))
      | None \<Rightarrow>
          if status e \<noteq> StatusOK then
            (if doRetries \<and> attempt < maxRetries
             then (acquire @ [Sleep retryDelay], Continue)
             else (acquire @ [CloseBodyStream attempt] @ release,
                   Return (Some (StatusError attempt (status_released e)))))
          else
            (case create_err e of
               Some err \<Rightarrow> (acquire @ [CloseBodyStream attempt] @ release, Return (Some err))
             | None \<Rightarrow>
                 (let opened = acquire @ [OsCreate attempt dst, SpawnUpdateProgress attempt] in
                  case writer_err e of
                    Some err \<Rightarrow>
                      (opened @ [CloseBodyStream attempt, FileClose attempt] @ release,
                       Return (Some err))
                  | None \<Rightarrow>
                      (case select_stream e doRetries attempt of
                         (evs, Inl r) \<Rightarrow> (opened @ evs, Return r)
                       | (evs, Inr isError) \<Rightarrow>
                           if \<not> isError
                           then (opened @ evs @ [CloseBodyStream attempt, FileClose attempt]
                                   @ release, Break)
                           else (opened @ evs, Continue)))))"

text \<open>
  The loop \<^verbatim>\<open>for attempt := 1; attempt <= maxRetries; attempt++\<close>; when it runs out
  or is left by \<^verbatim>\<open>break\<close> the function returns \<^verbatim>\<open>nil\<close>.
\<close>

function attempt_loop ::
  "(nat \<Rightarrow> attempt_env) \<Rightarrow> string \<Rightarrow> filepath \<Rightarrow> bool \<Rightarrow> nat
     \<Rightarrow> http_event list \<times> go_error option" where
  "attempt_loop env url dst doRetries attempt =
     (if attempt \<le> maxRetries then
        (case run_attempt (env attempt) url dst doRetries attempt of
           (evs, Continue) \<Rightarrow>
             (case attempt_loop env url dst doRetries (attempt + 1) of
                (evs', r) \<Rightarrow> (evs @ evs', r))
         | (evs, Break) \<Rightarrow> (evs, None)
         | (evs, Return r) \<Rightarrow> (evs, r))
      else ([], None))"
  by pat_completeness auto
termination
  by (relation "measure (\<lambda>(env, url, dst, doRetries, attempt). maxRetries + 1 - attempt)")
     (auto simp: maxRetries_def)

declare attempt_loop.simps [simp del]

definition downloadFile ::
  "(nat \<Rightarrow> attempt_env) \<Rightarrow> string \<Rightarrow> filepath \<Rightarrow> bool \<Rightarrow> http_event list \<times> go_error option" where
  "downloadFile env url dst doRetries = attempt_loop env url dst doRetries 1"


section \<open>Byte slices and big-endian reads\<close>

text \<open>
  A Go byte slice: \<open>elems\<close> are the bytes below its length, \<open>spare\<close> the bytes of the
  backing array between its length and its capacity.
\<close>

record go_bytes =
  elems :: "8 word list"
  spare :: "8 word list"

definition cap :: "go_bytes \<Rightarrow> nat" where
  "cap s = length (elems s) + length (spare s)"

text \<open>
  The slice expression \<^verbatim>\<open>s[lo:hi]\<close> of a slice is checked against the capacity and the
  index expression \<^verbatim>\<open>s[i]\<close> against the length; \<open>None\<close> is the run-time panic.
\<close>

definition slice_expr :: "go_bytes \<Rightarrow> nat \<Rightarrow> nat \<Rightarrow> 8 word list option" where
  "slice_expr s lo hi =
     (if lo \<le> hi \<and> hi \<le> cap s then Some (take (hi - lo) (drop lo (elems s @ spare s)))
      else None)"

definition index_expr :: "go_bytes \<Rightarrow> nat \<Rightarrow> 8 word option" where
  "index_expr s i = (if i < length (elems s) then Some (elems s ! i) else None)"

text \<open>\<^verbatim>\<open>binary.BigEndian\<close>: the first byte is the most significant one.\<close>

definition be_word :: "8 word list \<Rightarrow> 'a::len word" where
  "be_word bs = foldl (\<lambda>acc b. push_bit 8 acc OR ucast b) 0 bs"

text \<open>
  \<^verbatim>\<open>binary.Read(r, binary.BigEndian, &v)\<close> for an unsigned integer \<open>v\<close> of the width
  of the result, on a reader with the bytes \<open>bs\<close> left: \<^verbatim>\<open>io.ReadFull\<close> fails with
  \<^verbatim>\<open>io.EOF\<close> when nothing is left and with \<^verbatim>\<open>io.ErrUnexpectedEOF\<close> when too little is.
\<close>

definition binary_Read :: "8 word list \<Rightarrow> go_error + 'a::len word" where
  "binary_Read bs =
     (let n = LENGTH('a) div 8 in
      if n \<le> length bs then Inr (be_word (take n bs))
      else if bs = [] then Inl IoEOF
      else Inl IoUnexpectedEOF)"

section \<open>The acquisition (DownloadTitle)\<close>

text \<open>How a call ends: it returns \<^verbatim>\<open>nil\<close> or an error, or it panics.\<close>

datatype outcome = Returned "go_error option" | Panicked

text \<open>
  \<^verbatim>\<open>binary.Read(bytes.NewReader(tmdData[lo:hi]), binary.BigEndian, &v)\<close> followed by
  \<^verbatim>\<open>if err != nil { return err }\<close>: the slice expression may panic, the read may fail.
\<close>

definition read_slice :: "go_bytes \<Rightarrow> nat \<Rightarrow> nat \<Rightarrow> outcome + 'a::len word" where
  "read_slice tmdData lo hi =
     (case slice_expr tmdData lo hi of
        None \<Rightarrow> Inl Panicked
      | Some bs \<Rightarrow>
          (case binary_Read bs of
             Inl err \<Rightarrow> Inl (Returned (Some err))
           | Inr v \<Rightarrow> Inr v))"

text \<open>
  Lines 235 to 237: the reader over the whole metadata is positioned at the record with
  \<^verbatim>\<open>Seek\<close> and the identifier is read from it.
\<close>

definition content_ID :: "go_bytes \<Rightarrow> nat \<Rightarrow> go_error + 32 word" where
  "content_ID tmdData i = (let offset = 2820 + 48 * i in binary_Read (drop offset (elems tmdData)))"

text \<open>Line 249: the byte \<^verbatim>\<open>tmdData[offset+7]\<close> and the test of its bit \<^verbatim>\<open>0x2\<close>.\<close>

definition content_flags :: "go_bytes \<Rightarrow> nat \<Rightarrow> 8 word option" where
  "content_flags tmdData i = (let offset = 2820 + 48 * i in index_expr tmdData (offset + 7))"

definition has_h3 :: "8 word \<Rightarrow> bool" where
  "has_h3 flags = (flags AND 0x2 = 2)"

text \<open>
  Modelled from the spec: the catalog record \<^verbatim>\<open>TitleEntry\<close> (declared outside the
  sources at hand) has a name and a 64-bit title identifier.
\<close>

record TitleEntry =
  Name :: string
  TitleID :: "64 word"

text \<open>
  The calls of \<^verbatim>\<open>downloadFile\<close> and of \<^verbatim>\<open>progressReporter.Cancelled()\<close> in
  \<^verbatim>\<open>DownloadTitle\<close>, named by their place in the program (and the index of the
  content record).
\<close>

datatype fetch_site = FetchTmd | FetchTik | FetchApp nat | FetchH3 nat

datatype poll_site =
  PollTmd | PollTik | PollCert | PollApp nat | PollH3 nat | PollRecord nat | PollDecrypt

text \<open>
  The collaborators of an acquisition: the catalog, the file system, the network (one
  environment per call of \<^verbatim>\<open>downloadFile\<close> and attempt), the cancellation flag of the
  progress reporter as each poll sees it, and the functions \<^verbatim>\<open>GenerateKey\<close>,
  \<^verbatim>\<open>GenerateTicket\<close>, \<^verbatim>\<open>GenerateCert\<close> and \<^verbatim>\<open>DecryptContents\<close>.
\<close>

record world =
  titleEntry :: TitleEntry
  mkdirAll_err :: "go_error option"
  net :: "fetch_site \<Rightarrow> nat \<Rightarrow> attempt_env"
  cancelled :: "poll_site \<Rightarrow> bool"
  readFile :: "go_error + go_bytes"
  generateKey :: "go_error + 8 word list"
  generateTicket_err :: "go_error option"
  generateCert :: "go_error + 8 word list"
  certCreate_err :: "go_error option"
  certWrite_err :: "go_error option"
  decrypt_err :: "go_error option"

text \<open>
  The effects of an acquisition, in program order. \<open>DownloadFile\<close> carries the
  arguments of the call and the effects of the transfer, \<open>Cancelled\<close> the answer of
  the poll, \<open>CreateCert\<close> is a successful \<^verbatim>\<open>os.Create(certPath)\<close> and \<open>CloseCert\<close>
  the deferred \<^verbatim>\<open>certFile.Close()\<close>.
\<close>

datatype action =
    SetTotalDownloaded "64 word"
  | SetGameTitle string
  | MkdirAll string
  | DownloadFile fetch_site string filepath bool "http_event list"
  | ReadFile filepath
  | Cancelled poll_site bool
  | GenerateKey string
  | GenerateTicket filepath "64 word" "8 word list" "16 word"
  | SetDownloadSize "64 word"
  | GenerateCert "16 word"
  | CreateCert filepath
  | WriteCert "8 word list"
  | LogInfo filepath
  | AddToTotalDownloaded "64 word"
  | DecryptContents string bool
  | CloseCert

definition prepend :: "action list \<Rightarrow> action list \<times> outcome \<Rightarrow> action list \<times> outcome" where
  "prepend evs r = (evs @ fst r, snd r)"

text \<open>\<^verbatim>\<open>strings.TrimRight(s, cutset)\<close>.\<close>

definition TrimRight :: "string \<Rightarrow> string \<Rightarrow> string" where
  "TrimRight s cutset = rev (dropWhile (\<lambda>c. c \<in> set cutset) (rev s))"

text \<open>
  Modelled from the spec: the field \<^verbatim>\<open>Content.ID\<close> (declared outside the sources at
  hand) is a 32-bit identifier, so \<^verbatim>\<open>fmt.Sprintf("%08X", content.ID)\<close> is its eight
  upper-case hexadecimal digits.
\<close>

definition hexdigit :: "nat \<Rightarrow> char" where
  "hexdigit n = ''0123456789ABCDEF'' ! n"

definition hex8 :: "32 word \<Rightarrow> string" where
  "hex8 w = map (\<lambda>k. hexdigit (unat (drop_bit (4 * k) w AND 0xF))) [7, 6, 5, 4, 3, 2, 1, 0]"

text \<open>Lines 263 to 269: the optional decryption and the final \<^verbatim>\<open>return nil\<close>.\<close>

definition decrypt_stage :: "world \<Rightarrow> string \<Rightarrow> bool \<Rightarrow> bool \<Rightarrow> action list \<times> outcome" where
  "decrypt_stage w outputDir doDecryption deleteEncryptedContents =
     (if doDecryption then
        (if \<not> cancelled w PollDecrypt then
           ([Cancelled PollDecrypt False, DecryptContents outputDir deleteEncryptedContents],
            case decrypt_err w of Some err \<Rightarrow> Returned (Some err) | None \<Rightarrow> Returned None)
         else ([Cancelled PollDecrypt True], Returned None))
      else ([], Returned None))"

text \<open>How one pass through the body of the loop over the content records ends.\<close>

datatype loop_control = LoopNext | LoopBreak | LoopReturn outcome

text \<open>Lines 249 to 257: the integrity-tree file of a record whose flag asks for it.\<close>

definition fetch_h3 ::
  "world \<Rightarrow> string \<Rightarrow> string \<Rightarrow> nat \<Rightarrow> 32 word \<Rightarrow> action list \<times> loop_control" where
  "fetch_h3 w baseURL outputDir i contentID =
     (let filePath = Join outputDir (hex8 contentID @ ''.h3'');
          url = baseURL @ ''/'' @ hex8 contentID @ ''.h3'' in
      case downloadFile (net w (FetchH3 i)) url filePath True of
        (evs, Some err) \<Rightarrow>
          if cancelled w (PollH3 i)
          then ([DownloadFile (FetchH3 i) url filePath True evs, Cancelled (PollH3 i) True],
                LoopBreak)
          else ([DownloadFile (FetchH3 i) url filePath True evs, Cancelled (PollH3 i) False],
                LoopReturn (Returned (Some err)))
      | (evs, None) \<Rightarrow> ([DownloadFile (FetchH3 i) url filePath True evs], LoopNext))"

text \<open>Lines 235 to 260: the body of the loop over the content records.\<close>

definition content_step ::
  "world \<Rightarrow> go_bytes \<Rightarrow> 64 word list \<Rightarrow> string \<Rightarrow> string \<Rightarrow> nat
     \<Rightarrow> action list \<times> loop_control" where
  "content_step w tmdData contentSizes baseURL outputDir i =
     (case content_ID tmdData i of
        Inl err \<Rightarrow> ([], LoopReturn (Returned (Some err)))
      | Inr contentID \<Rightarrow>
          (let filePath = Join outputDir (hex8 contentID @ ''.app'');
               url = baseURL @ ''/'' @ hex8 contentID in
           case downloadFile (net w (FetchApp i)) url filePath True of
             (evs, Some err) \<Rightarrow>
               if cancelled w (PollApp i)
               then ([DownloadFile (FetchApp i) url filePath True evs,
                      Cancelled (PollApp i) True], LoopBreak)
               else ([DownloadFile (FetchApp i) url filePath True evs,
                      Cancelled (PollApp i) False], LoopReturn (Returned (Some err)))
           | (evs, None) \<Rightarrow>
               if \<not> i < length contentSizes
               then ([DownloadFile (FetchApp i) url filePath True evs], LoopReturn Panicked)
               else
                 (let fetched = [DownloadFile (FetchApp i) url filePath True evs,
                                 AddToTotalDownloaded (contentSizes ! i)] in
                  case content_flags tmdData i of
                    None \<Rightarrow> (fetched, LoopReturn Panicked)
                  | Some flags \<Rightarrow>
                      (case (if has_h3 flags
                             then fetch_h3 w baseURL outputDir i contentID
                             else ([], LoopNext)) of
                         (evs3, LoopNext) \<Rightarrow>
                           if cancelled w (PollRecord i)
                           then (fetched @ evs3 @ [Cancelled (PollRecord i) True], LoopBreak)
                           else (fetched @ evs3 @ [Cancelled (PollRecord i) False], LoopNext)
                       | (evs3, LoopBreak) \<Rightarrow> (fetched @ evs3, LoopBreak)
                       | (evs3, LoopReturn out) \<Rightarrow> (fetched @ evs3, LoopReturn out)))))"

text \<open>
  Lines 234 to 261: \<^verbatim>\<open>for i := 0; i < int(contentCount); i++\<close>, as a recursion over
  the indices still to visit. \<open>None\<close>: the loop was left at its end or by \<^verbatim>\<open>break\<close>.
\<close>

fun content_loop ::
  "world \<Rightarrow> go_bytes \<Rightarrow> 64 word list \<Rightarrow> string \<Rightarrow> string \<Rightarrow> nat list
     \<Rightarrow> action list \<times> outcome option" where
  "content_loop w tmdData contentSizes baseURL outputDir [] = ([], None)"
| "content_loop w tmdData contentSizes baseURL outputDir (i # rest) =
     (case content_step w tmdData contentSizes baseURL outputDir i of
        (evs, LoopNext) \<Rightarrow>
          (case content_loop w tmdData contentSizes baseURL outputDir rest of
             (evs', r) \<Rightarrow> (evs @ evs', r))
      | (evs, LoopBreak) \<Rightarrow> (evs, None)
      | (evs, LoopReturn out) \<Rightarrow> (evs, Some out))"

text \<open>
  Lines 212 to 269: the certificate, the content records and the decryption. Once the
  certificate is written its file is closed when the function is left, however it is.
\<close>

definition contents_stage ::
  "world \<Rightarrow> go_bytes \<Rightarrow> 16 word \<Rightarrow> 64 word list \<Rightarrow> string \<Rightarrow> string \<Rightarrow> bool \<Rightarrow> bool
     \<Rightarrow> action list \<times> outcome" where
  "contents_stage w tmdData contentCount contentSizes baseURL outputDir doDecryption
       deleteEncryptedContents =
     (case content_loop w tmdData contentSizes baseURL outputDir [0..<unat contentCount] of
        (evs, Some out) \<Rightarrow> (evs, out)
      | (evs, None) \<Rightarrow>
          prepend evs (decrypt_stage w outputDir doDecryption deleteEncryptedContents))"

definition cert_stage ::
  "world \<Rightarrow> go_bytes \<Rightarrow> 16 word \<Rightarrow> 64 word list \<Rightarrow> string \<Rightarrow> string \<Rightarrow> bool \<Rightarrow> bool
     \<Rightarrow> action list \<times> outcome" where
  "cert_stage w tmdData contentCount contentSizes baseURL outputDir doDecryption
       deleteEncryptedContents =
     (case generateCert w of
        Inl err \<Rightarrow>
          if cancelled w PollCert
          then ([GenerateCert contentCount, Cancelled PollCert True], Returned None)
          else ([GenerateCert contentCount, Cancelled PollCert False], Returned (Some err))
      | Inr cert \<Rightarrow>
          (let certPath = Join outputDir ''title.cert'' in
           case certCreate_err w of
             Some err \<Rightarrow> ([GenerateCert contentCount], Returned (Some err))
           | None \<Rightarrow>
               (case certWrite_err w of
                  Some err \<Rightarrow> ([GenerateCert contentCount, CreateCert certPath],
                               Returned (Some err))
                | None \<Rightarrow>
                    (case contents_stage w tmdData contentCount contentSizes baseURL outputDir
                            doDecryption deleteEncryptedContents of
                       (evs, out) \<Rightarrow>
                         ([GenerateCert contentCount, CreateCert certPath, WriteCert cert,
                           LogInfo certPath] @ evs @ [CloseCert], out)))))"

text \<open>
  Lines 196 to 208: the sizes of the content records, each read from a sub-slice of the
  metadata, and their sum in 64-bit arithmetic.
\<close>

fun read_sizes ::
  "go_bytes \<Rightarrow> nat list \<Rightarrow> 64 word \<Rightarrow> 64 word list \<Rightarrow> outcome + (64 word \<times> 64 word list)" where
  "read_sizes tmdData [] titleSize contentSizes = Inr (titleSize, contentSizes)"
| "read_sizes tmdData (i # rest) titleSize contentSizes =
     (let contentDataLoc = 0xB04 + 0x30 * i in
      case read_slice tmdData (contentDataLoc + 8) (contentDataLoc + 8 + 8) of
        Inl out \<Rightarrow> Inl out
      | Inr contentSizeInt \<Rightarrow>
          read_sizes tmdData rest (titleSize + contentSizeInt)
            (contentSizes @ [contentSizeInt]))"

text \<open>Lines 191 to 210: the content count, the sizes and the total size.\<close>

definition sizes_stage ::
  "world \<Rightarrow> go_bytes \<Rightarrow> string \<Rightarrow> string \<Rightarrow> bool \<Rightarrow> bool \<Rightarrow> action list \<times> outcome" where
  "sizes_stage w tmdData baseURL outputDir doDecryption deleteEncryptedContents =
     (case read_slice tmdData 478 480 of
        Inl out \<Rightarrow> ([], out)
      | Inr contentCount \<Rightarrow>
          (case read_sizes tmdData [0..<unat (contentCount :: 16 word)] 0 [] of
             Inl out \<Rightarrow> ([], out)
           | Inr (titleSize, contentSizes) \<Rightarrow>
               prepend [SetDownloadSize titleSize]
                 (cert_stage w tmdData contentCount contentSizes baseURL outputDir
                    doDecryption deleteEncryptedContents)))"

text \<open>
  Lines 177 to 189: the ticket is fetched without retries; when that fails and the
  reporter is not cancelled, a ticket is made from a generated key.
\<close>

definition ticket_stage ::
  "world \<Rightarrow> string \<Rightarrow> 16 word \<Rightarrow> string \<Rightarrow> string \<Rightarrow> action list \<times> outcome option" where
  "ticket_stage w titleID titleVersion baseURL outputDir =
     (let tikPath = Join outputDir ''title.tik'';
          url = baseURL @ ''/'' @ ''cetk'' in
      case downloadFile (net w FetchTik) url tikPath False of
        (evs, None) \<Rightarrow> ([DownloadFile FetchTik url tikPath False evs], None)
      | (evs, Some err) \<Rightarrow>
          if cancelled w PollTik
          then ([DownloadFile FetchTik url tikPath False evs, Cancelled PollTik True],
                Some (Returned None))
          else
            (case generateKey w of
               Inl err \<Rightarrow>
                 ([DownloadFile FetchTik url tikPath False evs, Cancelled PollTik False,
                   GenerateKey titleID], Some (Returned (Some err)))
             | Inr titleKey \<Rightarrow>
                 (case generateTicket_err w of
                    Some err \<Rightarrow>
                      ([DownloadFile FetchTik url tikPath False evs, Cancelled PollTik False,
                        GenerateKey titleID,
                        GenerateTicket tikPath (TitleID (titleEntry w)) titleKey titleVersion],
                       Some (Returned (Some err)))
                  | None \<Rightarrow>
                      ([DownloadFile FetchTik url tikPath False evs, Cancelled PollTik False,
                        GenerateKey titleID,
                        GenerateTicket tikPath (TitleID (titleEntry w)) titleKey titleVersion],
                       None))))"

text \<open>Lines 159 to 189: the metadata is fetched and read, then the version and the ticket.\<close>

definition metadata_stage ::
  "world \<Rightarrow> string \<Rightarrow> string \<Rightarrow> string \<Rightarrow> bool \<Rightarrow> bool \<Rightarrow> action list \<times> outcome" where
  "metadata_stage w titleID baseURL outputDir doDecryption deleteEncryptedContents =
     (let tmdPath = Join outputDir ''title.tmd'';
          url = baseURL @ ''/'' @ ''tmd'' in
      case downloadFile (net w FetchTmd) url tmdPath True of
        (evs, Some err) \<Rightarrow>
          if cancelled w PollTmd
          then ([DownloadFile FetchTmd url tmdPath True evs, Cancelled PollTmd True],
                Returned None)
          else ([DownloadFile FetchTmd url tmdPath True evs, Cancelled PollTmd False],
                Returned (Some err))
      | (evs, None) \<Rightarrow>
          (case readFile w of
             Inl err \<Rightarrow> ([DownloadFile FetchTmd url tmdPath True evs, ReadFile tmdPath],
                         Returned (Some err))
           | Inr tmdData \<Rightarrow>
               prepend [DownloadFile FetchTmd url tmdPath True evs, ReadFile tmdPath]
                 (case read_slice tmdData 476 478 of
                    Inl out \<Rightarrow> ([], out)
                  | Inr titleVersion \<Rightarrow>
                      (case ticket_stage w titleID titleVersion baseURL outputDir of
                         (tik, Some out) \<Rightarrow> (tik, out)
                       | (tik, None) \<Rightarrow>
                           prepend tik
                             (sizes_stage w tmdData baseURL outputDir doDecryption
                                deleteEncryptedContents)))))"

text \<open>
  \<^verbatim>\<open>DownloadTitle\<close>. The context, the HTTP client and the logger are part of the
  world; the progress reporter is seen through its calls.
\<close>

definition DownloadTitle ::
  "world \<Rightarrow> string \<Rightarrow> string \<Rightarrow> bool \<Rightarrow> bool \<Rightarrow> action list \<times> outcome" where
  "DownloadTitle w titleID outputDirectory doDecryption deleteEncryptedContents =
     (let tEntry = titleEntry w;
          outputDir = TrimRight outputDirectory [CHR ''/'', CHR 0x5C];
          baseURL = ''http://ccs.cdn.c.shop.nintendowifi.net/ccs/download/'' @ titleID;
          start = [SetTotalDownloaded 0, SetGameTitle (Name tEntry), MkdirAll outputDir] in
      case mkdirAll_err w of
        Some err \<Rightarrow> (start, Returned (Some err))
      | None \<Rightarrow>
          prepend start
            (metadata_stage w titleID baseURL outputDir doDecryption deleteEncryptedContents))"


section \<open>Observations on traces and example inputs\<close>

text \<open>The requests and the pauses of a transfer, the rest of its effects left out.\<close>

definition is_schedule :: "http_event \<Rightarrow> bool" where
  "is_schedule ev = (case ev of ClientDo _ _ _ \<Rightarrow> True | Sleep _ \<Rightarrow> True | _ \<Rightarrow> False)"

text \<open>An attempt on which everything works, and variations of it.\<close>

definition env_ok :: attempt_env where
  "env_ok = \<lparr>do_err = None, status = 200, status_released = 200, create_err = None,
             writer_err = None, ctx_done = False, body_err = None\<rparr>"

definition env_404 :: "nat \<Rightarrow> attempt_env" where
  "env_404 k = env_ok\<lparr>status := 404, status_released := 404\<rparr>"

definition env_ctx_done :: "nat \<Rightarrow> attempt_env" where
  "env_ctx_done k = env_ok\<lparr>ctx_done := True\<rparr>"


definition env_eof :: "nat \<Rightarrow> attempt_env" where
  "env_eof k = env_ok\<lparr>body_err := Some IoEOF\<rparr>"

definition env_503_then_ok :: "nat \<Rightarrow> attempt_env" where
  "env_503_then_ok k =
     (if k = 1 then env_ok\<lparr>status := 503, status_released := 503\<rparr> else env_ok)"

section \<open>The metadata layout as the format states it\<close>

text \<open>
  The value of a byte string read as a big-endian number, the \<open>n\<close> bytes of the
  metadata at an offset, and the fields of the format: the version at offset 476, the
  content count at offset 478, and the content records of \<open>0x30\<close> bytes from offset
  \<open>0xB04\<close> on, each with its identifier in the first four bytes, its type flags in the
  byte at 7 and its size in the eight bytes from 8 on.
\<close>

definition be_value :: "8 word list \<Rightarrow> nat" where
  "be_value bs = foldl (\<lambda>acc b. 256 * acc + unat b) 0 bs"

definition bytes_at :: "go_bytes \<Rightarrow> nat \<Rightarrow> nat \<Rightarrow> 8 word list" where
  "bytes_at tmd off n = take n (drop off (elems tmd))"

definition tmd_version :: "go_bytes \<Rightarrow> nat" where
  "tmd_version tmd = be_value (bytes_at tmd 476 2)"

definition tmd_count :: "go_bytes \<Rightarrow> nat" where
  "tmd_count tmd = be_value (bytes_at tmd 478 2)"

definition record_ID :: "go_bytes \<Rightarrow> nat \<Rightarrow> nat" where
  "record_ID tmd i = be_value (bytes_at tmd (0xB04 + 0x30 * i) 4)"

definition record_flags :: "go_bytes \<Rightarrow> nat \<Rightarrow> 8 word" where
  "record_flags tmd i = elems tmd ! (0xB04 + 0x30 * i + 7)"

definition record_size :: "go_bytes \<Rightarrow> nat \<Rightarrow> nat" where
  "record_size tmd i = be_value (bytes_at tmd (0xB04 + 0x30 * i + 8) 8)"

text \<open>
  The length a metadata buffer needs to hold the version, the content count and the
  content records it declares.
\<close>

definition required_length :: "go_bytes \<Rightarrow> nat" where
  "required_length tmd = (if tmd_count tmd = 0 then 480 else 0xB04 + 0x30 * tmd_count tmd)"

definition long_enough :: "go_bytes \<Rightarrow> bool" where
  "long_enough tmd =
     (480 \<le> length (elems tmd) \<and> required_length tmd \<le> length (elems tmd))"

text \<open>The size of a record as the 64-bit number the code adds up.\<close>

definition size_word :: "go_bytes \<Rightarrow> nat \<Rightarrow> 64 word" where
  "size_word tmd i = be_word (bytes_at tmd (0xB04 + 0x30 * i + 8) 8)"

text \<open>
  A metadata buffer with version 7 and two content records: identifier 0 with 1000
  bytes, and identifier 1 with 2000 bytes and the flag of an integrity-tree file.
\<close>

definition record_bytes :: "8 word list \<Rightarrow> 8 word \<Rightarrow> 8 word list \<Rightarrow> 8 word list" where
  "record_bytes cid flags sz = cid @ [0, 0, 0, flags] @ sz @ replicate 32 0"

definition tmd_two_records :: go_bytes where
  "tmd_two_records =
     \<lparr>elems = replicate 476 0 @ [0, 7, 0, 2] @ replicate 2340 0
        @ record_bytes [0, 0, 0, 0] 0 [0, 0, 0, 0, 0, 0, 3, 232]
        @ record_bytes [0, 0, 0, 1] 2 [0, 0, 0, 0, 0, 0, 7, 208],
      spare = [0]\<rparr>"

text \<open>
  Two truncated metadata buffers: 480 bytes that declare one content record, and 100
  bytes in a backing array of 512.
\<close>

definition tmd_truncated :: go_bytes where
  "tmd_truncated = \<lparr>elems = replicate 478 0 @ [0, 1], spare = replicate 32 0\<rparr>"

definition tmd_short :: go_bytes where
  "tmd_short = \<lparr>elems = replicate 100 0, spare = replicate 412 0\<rparr>"

text \<open>
  A world in which everything works, except that the service has no ticket (status 404):
  the metadata is the one with two records.
\<close>

definition world_ok :: world where
  "world_ok =
     \<lparr>titleEntry = \<lparr>Name = ''Game'', TitleID = 0x0005000010101010\<rparr>,
      mkdirAll_err = None,
      net = (\<lambda>site k. if site = FetchTik then env_404 k else env_ok),
      cancelled = (\<lambda>site. False),
      readFile = Inr tmd_two_records,
      generateKey = Inr [1, 2, 3, 4, 5, 6, 7, 8, 9, 10, 11, 12, 13, 14, 15, 16],
      generateTicket_err = None,
      generateCert = Inr [9, 9],
      certCreate_err = None,
      certWrite_err = None,
      decrypt_err = None\<rparr>"

text \<open>
  The polls inside the loop over the content records, the effects that loop can have,
  and what it means that an acquisition stops at a poll that saw the cancellation: it
  returns \<^verbatim>\<open>nil\<close>, nothing is decrypted, and after that poll come at most the poll
  before the decryption and the closing of the certificate file.
\<close>

definition loop_site :: "poll_site \<Rightarrow> bool" where
  "loop_site s = (case s of PollApp _ \<Rightarrow> True | PollH3 _ \<Rightarrow> True | PollRecord _ \<Rightarrow> True
                  | _ \<Rightarrow> False)"

definition loop_action :: "action \<Rightarrow> bool" where
  "loop_action a =
     (case a of
        DownloadFile site _ _ _ _ \<Rightarrow>
          (case site of FetchApp _ \<Rightarrow> True | FetchH3 _ \<Rightarrow> True | _ \<Rightarrow> False)
      | AddToTotalDownloaded _ \<Rightarrow> True
      | Cancelled s _ \<Rightarrow> loop_site s
      | _ \<Rightarrow> False)"

definition stops_after :: "poll_site \<Rightarrow> action list \<times> outcome \<Rightarrow> bool" where
  "stops_after s r =
     (Cancelled s True \<in> set (fst r) \<longrightarrow>
        snd r = Returned None \<and>
        (\<forall>d b. DecryptContents d b \<notin> set (fst r)) \<and>
        (\<exists>pre post. fst r = pre @ [Cancelled s True] @ post \<and>
                     set post \<subseteq> {Cancelled PollDecrypt True, CloseCert}))"

text \<open>The world that works, cancelled while the first content record is fetched.\<close>

definition world_cancel :: world where
  "world_cancel = world_ok\<lparr>cancelled := (\<lambda>site. site = PollRecord 0 \<or> site = PollDecrypt)\<rparr>"

text \<open>The effects that belong to the ticket: its fetch, the key and the ticket made from it.\<close>

definition ticket_action :: "action \<Rightarrow> bool" where
  "ticket_action a =
     (case a of
        GenerateKey _ \<Rightarrow> True
      | GenerateTicket _ _ _ _ \<Rightarrow> True
      | DownloadFile site _ _ _ _ \<Rightarrow> site = FetchTik
      | _ \<Rightarrow> False)"

text \<open>The files \<^verbatim>\<open>os.Create\<close> made inside a transfer.\<close>

definition created_in :: "http_event list \<Rightarrow> filepath list" where
  "created_in evs = concat (map (\<lambda>e. case e of OsCreate _ p \<Rightarrow> [p] | _ \<Rightarrow> []) evs)"

text \<open>
  Modelled from the spec: \<^verbatim>\<open>GenerateTicket\<close> (defined outside the sources at hand)
  serializes the ticket to the path it is given. So the files an acquisition creates are
  those of its transfers, the ticket file when a ticket is made, and the certificate
  file.
\<close>

definition created_by :: "action \<Rightarrow> filepath list" where
  "created_by a =
     (case a of
        DownloadFile _ _ _ _ evs \<Rightarrow> created_in evs
      | GenerateTicket p _ _ _ \<Rightarrow> [p]
      | CreateCert p \<Rightarrow> [p]
      | _ \<Rightarrow> [])"

definition created_files :: "action list \<Rightarrow> filepath set" where
  "created_files tr = set (concat (map created_by tr))"

text \<open>The part of an acquisition before the decryption begins.\<close>

definition is_decrypt :: "action \<Rightarrow> bool" where
  "is_decrypt a = (case a of DecryptContents _ _ \<Rightarrow> True | _ \<Rightarrow> False)"


text \<open>
  Modelled from the spec: the cumulative counter of the progress reporter (an interface,
  implemented outside the sources at hand) is a 64-bit integer, set by
  \<^verbatim>\<open>SetTotalDownloaded\<close> and advanced by \<^verbatim>\<open>AddToTotalDownloaded\<close>.
\<close>

definition progress_step :: "64 word \<Rightarrow> action \<Rightarrow> 64 word" where
  "progress_step acc a =
     (case a of
        SetTotalDownloaded v \<Rightarrow> v
      | AddToTotalDownloaded d \<Rightarrow> acc + d
      | _ \<Rightarrow> acc)"

definition progress_total :: "64 word \<Rightarrow> action list \<Rightarrow> 64 word" where
  "progress_total acc tr = foldl progress_step acc tr"

text \<open>The identifier of a record as the 32-bit number the code formats.\<close>

definition ID_word :: "go_bytes \<Rightarrow> nat \<Rightarrow> 32 word" where
  "ID_word tmd i = be_word (bytes_at tmd (0xB04 + 0x30 * i) 4)"

text \<open>
  The files of one content record. A run has completed its download stage when it
  returned \<^verbatim>\<open>nil\<close> or got as far as the decryption; a stage delivers a set of files and
  an amount of progress when every completed run of it created exactly those files and
  advanced the counter by that amount before the decryption.
\<close>

definition record_files :: "string \<Rightarrow> go_bytes \<Rightarrow> nat \<Rightarrow> filepath set" where
  "record_files outputDir tmd i =
     {Join outputDir (hex8 (word_of_nat (record_ID tmd i)) @ ''.app'')} \<union>
     (if bit (record_flags tmd i) 1
      then {Join outputDir (hex8 (word_of_nat (record_ID tmd i)) @ ''.h3'')} else {})"

definition completed :: "action list \<times> outcome \<Rightarrow> bool" where
  "completed r = (snd r = Returned None \<or> (\<exists>a\<in>set (fst r). is_decrypt a))"


text \<open>
  An endpoint that answers every attempt with 404, with a pool that resets a response
  when it is given back, so that a released response reads as 200.
\<close>

definition env_404_reset :: "nat \<Rightarrow> attempt_env" where
  "env_404_reset k = env_ok\<lparr>status := 404, status_released := 200\<rparr>"

text \<open>
  Variations of the world that works: the context cancelled while the ticket is fetched,
  the flag of the reporter set when the missing ticket is noticed, the flag set at the end
  of the first record and unset before the decryption (which then fails), and the context
  cancelled while the first content is fetched.
\<close>

definition world_ctx_ticket :: world where
  "world_ctx_ticket =
     world_ok\<lparr>net := (\<lambda>site k. if site = FetchTik then env_ctx_done k else env_ok)\<rparr>"

definition world_404_flagged :: world where
  "world_404_flagged = world_ok\<lparr>cancelled := (\<lambda>site. site = PollTik)\<rparr>"

definition world_flag_unset :: world where
  "world_flag_unset =
     world_ok\<lparr>cancelled := (\<lambda>site. site = PollRecord 0),
              decrypt_err := Some (External ''decrypt'')\<rparr>"

definition world_ctx_app :: world where
  "world_ctx_app =
     world_ok\<lparr>net := (\<lambda>site k. if site = FetchTik then env_404 k
                             else if site = FetchApp 0 then env_ctx_done k else env_ok)\<rparr>"

text \<open>
  What an acquisition hands on of the metadata. The view of a run on the content records:
  its transfers of content and integrity-tree files (their inner effects left out) and
  the amounts it adds to the counter, in order. The view the format prescribes: for each
  of the declared records in turn, the content file under the eight hexadecimal digits of
  its identifier, its size, and the integrity-tree file when bit \<open>0x2\<close> of its flags is
  set. A field handed to a collaborator is right when it is the version, the count or
  the sum of the sizes of the format. A stage views a list of records when every run of
  it views a prefix of the list, and all of it when it completes uncancelled.
\<close>

definition record_action :: "action \<Rightarrow> bool" where
  "record_action a =
     (case a of
        DownloadFile site _ _ _ _ \<Rightarrow>
          (case site of FetchApp _ \<Rightarrow> True | FetchH3 _ \<Rightarrow> True | _ \<Rightarrow> False)
      | AddToTotalDownloaded _ \<Rightarrow> True
      | _ \<Rightarrow> False)"

definition shape :: "action \<Rightarrow> action" where
  "shape a = (case a of DownloadFile site url dst r evs \<Rightarrow> DownloadFile site url dst r []
              | _ \<Rightarrow> a)"

definition record_view :: "action list \<Rightarrow> action list" where
  "record_view tr = map shape (filter record_action tr)"

definition expected_record :: "string \<Rightarrow> string \<Rightarrow> go_bytes \<Rightarrow> nat \<Rightarrow> action list" where
  "expected_record baseURL outputDir tmd i =
     (let name = hex8 (word_of_nat (record_ID tmd i)) in
      [DownloadFile (FetchApp i) (baseURL @ ''/'' @ name) (Join outputDir (name @ ''.app''))
         True [],
       AddToTotalDownloaded (word_of_nat (record_size tmd i))] @
      (if bit (record_flags tmd i) 1
       then [DownloadFile (FetchH3 i) (baseURL @ ''/'' @ name @ ''.h3'')
               (Join outputDir (name @ ''.h3'')) True []]
       else []))"

definition expected_records :: "string \<Rightarrow> string \<Rightarrow> go_bytes \<Rightarrow> action list" where
  "expected_records baseURL outputDir tmd =
     concat (map (expected_record baseURL outputDir tmd) [0..<tmd_count tmd])"

definition field_ok :: "go_bytes \<Rightarrow> action \<Rightarrow> bool" where
  "field_ok tmd a =
     (case a of
        GenerateTicket _ _ _ v \<Rightarrow> unat v = tmd_version tmd
      | GenerateCert n \<Rightarrow> unat n = tmd_count tmd
      | SetDownloadSize s \<Rightarrow>
          s = sum_list (map (\<lambda>i. word_of_nat (record_size tmd i)) [0..<tmd_count tmd])
      | _ \<Rightarrow> True)"

definition views :: "world \<Rightarrow> action list \<Rightarrow> action list \<times> outcome \<Rightarrow> bool" where
  "views w E r =
     ((\<exists>rest. E = record_view (fst r) @ rest) \<and>
      (completed r \<and> (\<forall>s. \<not> cancelled w s) \<longrightarrow> record_view (fst r) = E))"

section \<open>The attempt loop\<close>

lemma loop_step:
  "attempt \<le> maxRetries \<Longrightarrow>
   run_attempt (env attempt) url dst doRetries attempt = (evs, Continue) \<Longrightarrow>
   n = attempt + 1 \<Longrightarrow>
   attempt_loop env url dst doRetries attempt =
     (evs @ fst (attempt_loop env url dst doRetries n),
      snd (attempt_loop env url dst doRetries n))"
  by (subst attempt_loop.simps) (simp split: prod.splits)

lemma loop_break:
  "attempt \<le> maxRetries \<Longrightarrow>
   run_attempt (env attempt) url dst doRetries attempt = (evs, Break) \<Longrightarrow>
   attempt_loop env url dst doRetries attempt = (evs, None)"
  by (subst attempt_loop.simps) simp

lemma loop_return:
  "attempt \<le> maxRetries \<Longrightarrow>
   run_attempt (env attempt) url dst doRetries attempt = (evs, Return r) \<Longrightarrow>
   attempt_loop env url dst doRetries attempt = (evs, r)"
  by (subst attempt_loop.simps) simp

lemma run_attempt_status_retry:
  "do_err e = None \<Longrightarrow> status e \<noteq> StatusOK \<Longrightarrow> attempt < maxRetries \<Longrightarrow>
   run_attempt e url dst True attempt =
     ([AcquireRequest attempt, AcquireResponse attempt, ClientDo attempt ''GET'' url,
       Sleep retryDelay], Continue)"
  by (simp add: run_attempt_def)

lemma run_attempt_status_final:
  "do_err e = None \<Longrightarrow> status e \<noteq> StatusOK \<Longrightarrow> \<not> (doRetries \<and> attempt < maxRetries) \<Longrightarrow>
   run_attempt e url dst doRetries attempt =
     ([AcquireRequest attempt, AcquireResponse attempt, ClientDo attempt ''GET'' url,
       CloseBodyStream attempt, ReleaseRequest attempt, ReleaseResponse attempt],
      Return (Some (StatusError attempt (status_released e))))"
  by (auto simp add: run_attempt_def)

lemma run_attempt_ctx:
  "do_err e = None \<Longrightarrow> status e = StatusOK \<Longrightarrow> create_err e = None \<Longrightarrow>
   writer_err e = None \<Longrightarrow> ctx_done e \<Longrightarrow>
   run_attempt e url dst doRetries attempt =
     ([AcquireRequest attempt, AcquireResponse attempt, ClientDo attempt ''GET'' url,
       OsCreate attempt dst, SpawnUpdateProgress attempt,
       CloseBodyStream attempt, FileClose attempt, ReleaseRequest attempt,
       ReleaseResponse attempt], Return (Some ContextErr))"
  by (simp add: run_attempt_def select_stream_def)

lemma run_attempt_eof:
  "do_err e = None \<Longrightarrow> status e = StatusOK \<Longrightarrow> create_err e = None \<Longrightarrow>
   writer_err e = None \<Longrightarrow> \<not> ctx_done e \<Longrightarrow> body_err e = Some IoEOF \<Longrightarrow>
   run_attempt e url dst doRetries attempt =
     ([AcquireRequest attempt, AcquireResponse attempt, ClientDo attempt ''GET'' url,
       OsCreate attempt dst, SpawnUpdateProgress attempt, BodyWriteTo attempt,
       CloseBodyStream attempt, FileClose attempt, ReleaseRequest attempt,
       ReleaseResponse attempt], Break)"
  by (simp add: run_attempt_def select_stream_def)





text \<open>
  Against an endpoint that answers every attempt with a status other than 200, a
  retrying transfer sends five GET requests with a pause of five seconds between
  consecutive ones and returns the status error of attempt 5; a transfer without retries
  sends one request and returns the status error of attempt 1. The status code in the
  error is the one \<^verbatim>\<open>resp.StatusCode()\<close> yields where the error is built, which is
  after \<^verbatim>\<open>ReleaseResponse\<close>.
\<close>

lemma failing_status_schedule:
  assumes "\<forall>k\<in>{1..maxRetries}. do_err (env k) = None \<and> status (env k) \<noteq> StatusOK"
  shows "(case downloadFile env url dst True of (tr, r) \<Rightarrow>
            r = Some (StatusError 5 (status_released (env 5))) \<and>
            filter is_schedule tr =
              [ClientDo 1 ''GET'' url, Sleep 5, ClientDo 2 ''GET'' url, Sleep 5,
               ClientDo 3 ''GET'' url, Sleep 5, ClientDo 4 ''GET'' url, Sleep 5,
               ClientDo 5 ''GET'' url]) \<and>
         (case downloadFile env url dst False of (tr, r) \<Rightarrow>
            r = Some (StatusError 1 (status_released (env 1))) \<and>
            filter is_schedule tr = [ClientDo 1 ''GET'' url])"
proof -
  have e: "do_err (env k) = None" "status (env k) \<noteq> StatusOK" if "1 \<le> k" "k \<le> 5" for k
    using assms that by (auto simp: maxRetries_def)
  have r: "run_attempt (env k) url dst True k =
     ([AcquireRequest k, AcquireResponse k, ClientDo k ''GET'' url, Sleep retryDelay], Continue)"
    if "1 \<le> k" "k < 5" for k
    using that e[of k] by (intro run_attempt_status_retry) (auto simp: maxRetries_def)
  have l5: "attempt_loop env url dst True 5 =
     ([AcquireRequest 5, AcquireResponse 5, ClientDo 5 ''GET'' url,
       CloseBodyStream 5, ReleaseRequest 5, ReleaseResponse 5],
      Some (StatusError 5 (status_released (env 5))))"
    by (rule loop_return) (simp_all add: maxRetries_def run_attempt_status_final e)
  have l4: "attempt_loop env url dst True 4 =
     ([AcquireRequest 4, AcquireResponse 4, ClientDo 4 ''GET'' url, Sleep retryDelay] @
      fst (attempt_loop env url dst True 5), snd (attempt_loop env url dst True 5))"
    by (rule loop_step[OF _ r]) (simp_all add: maxRetries_def)
  have l3: "attempt_loop env url dst True 3 =
     ([AcquireRequest 3, AcquireResponse 3, ClientDo 3 ''GET'' url, Sleep retryDelay] @
      fst (attempt_loop env url dst True 4), snd (attempt_loop env url dst True 4))"
    by (rule loop_step[OF _ r]) (simp_all add: maxRetries_def)
  have l2: "attempt_loop env url dst True 2 =
     ([AcquireRequest 2, AcquireResponse 2, ClientDo 2 ''GET'' url, Sleep retryDelay] @
      fst (attempt_loop env url dst True 3), snd (attempt_loop env url dst True 3))"
    by (rule loop_step[OF _ r]) (simp_all add: maxRetries_def)
  have l1: "attempt_loop env url dst True 1 =
     ([AcquireRequest 1, AcquireResponse 1, ClientDo 1 ''GET'' url, Sleep retryDelay] @
      fst (attempt_loop env url dst True 2), snd (attempt_loop env url dst True 2))"
    by (rule loop_step[OF _ r]) (simp_all add: maxRetries_def)
  have f1: "attempt_loop env url dst False 1 =
     ([AcquireRequest 1, AcquireResponse 1, ClientDo 1 ''GET'' url,
       CloseBodyStream 1, ReleaseRequest 1, ReleaseResponse 1],
      Some (StatusError 1 (status_released (env 1))))"
    by (rule loop_return) (simp_all add: maxRetries_def run_attempt_status_final e)
  show ?thesis
    unfolding downloadFile_def f1 l1 l2 l3 l4 l5
    by (simp add: is_schedule_def retryDelay_def)
qed

text \<open>
  C2 fails on the status code. The endpoint answers every attempt with 404. The
  requests, the pauses and the attempt count in the error are as stated: five GET
  requests five seconds apart and attempt 5 with retries, one request and attempt 1
  without. But the error is built after \<^verbatim>\<open>ReleaseResponse(resp)\<close>, so the status code in
  it is the one of the released response (200 once the pool has reset it), not the 404
  the endpoint sent.
\<close>

theorem status_error_reports_released_response:
  "status (env_404_reset 5) = 404 \<and>
   filter is_schedule (fst (downloadFile env_404_reset ''u'' (Join ''d'' ''f'') True)) =
     [ClientDo 1 ''GET'' ''u'', Sleep 5, ClientDo 2 ''GET'' ''u'', Sleep 5,
      ClientDo 3 ''GET'' ''u'', Sleep 5, ClientDo 4 ''GET'' ''u'', Sleep 5,
      ClientDo 5 ''GET'' ''u''] \<and>
   snd (downloadFile env_404_reset ''u'' (Join ''d'' ''f'') True) = Some (StatusError 5 200) \<and>
   filter is_schedule (fst (downloadFile env_404_reset ''u'' (Join ''d'' ''f'') False)) =
     [ClientDo 1 ''GET'' ''u''] \<and>
   snd (downloadFile env_404_reset ''u'' (Join ''d'' ''f'') False) = Some (StatusError 1 200)"
proof -
  have h: "\<forall>k\<in>{1..maxRetries}. do_err (env_404_reset k) = None
             \<and> status (env_404_reset k) \<noteq> StatusOK"
    by (simp add: env_404_reset_def env_ok_def StatusOK_def)
  have c: "status_released (env_404_reset k) = 200" "status (env_404_reset k) = 404" for k
    by (simp_all add: env_404_reset_def env_ok_def)
  from failing_status_schedule[OF h, of "''u''" "Join ''d'' ''f''"]
  show ?thesis
    by (simp add: c split: prod.splits)
qed

text \<open>
  C3, as the code has it. When the context is done where an attempt is about to stream
  the body (the response arrived with status 200, the destination file and its writer
  exist), the attempt closes the body stream and the file, gives the request and the
  response back, streams nothing, and the transfer returns the error of the context.
\<close>

theorem downloadFile_context_done_returns_context_error:
  assumes "attempt \<le> maxRetries" "do_err (env attempt) = None"
    "status (env attempt) = StatusOK" "create_err (env attempt) = None"
    "writer_err (env attempt) = None" "ctx_done (env attempt)"
  shows "attempt_loop env url dst doRetries attempt =
     ([AcquireRequest attempt, AcquireResponse attempt, ClientDo attempt ''GET'' url,
       OsCreate attempt dst, SpawnUpdateProgress attempt,
       CloseBodyStream attempt, FileClose attempt, ReleaseRequest attempt,
       ReleaseResponse attempt], Some ContextErr)"
  using assms by (intro loop_return run_attempt_ctx)

theorem downloadFile_context_done_returns_context_error_witness:
  "(1::nat) \<le> maxRetries \<and> do_err (env_ctx_done 1) = None \<and>
   status (env_ctx_done 1) = StatusOK \<and> create_err (env_ctx_done 1) = None \<and>
   writer_err (env_ctx_done 1) = None \<and> ctx_done (env_ctx_done 1) \<and>
   snd (attempt_loop env_ctx_done ''u'' (Join ''d'' ''f'') True 1) = Some ContextErr"
proof -
  have h: "(1::nat) \<le> maxRetries" "do_err (env_ctx_done 1) = None"
    "status (env_ctx_done 1) = StatusOK" "create_err (env_ctx_done 1) = None"
    "writer_err (env_ctx_done 1) = None" "ctx_done (env_ctx_done 1)"
    by (simp_all add: env_ctx_done_def env_ok_def StatusOK_def maxRetries_def)
  from downloadFile_context_done_returns_context_error
         [where attempt = 1 and env = env_ctx_done and url = "''u''" and dst = "Join ''d'' ''f''"
            and doRetries = True, OF h] h
  show ?thesis by simp
qed

text \<open>
  C3, as the spec has it, fails: with the context done before the body is streamed, the
  transfer returns an error.
\<close>

theorem downloadFile_cancellation_is_an_error:
  "snd (downloadFile env_ctx_done ''u'' (Join ''d'' ''f'') True) \<noteq> None"
  unfolding downloadFile_def
  by (subst attempt_loop.simps)
     (simp add: run_attempt_def select_stream_def env_ctx_done_def env_ok_def maxRetries_def
        StatusOK_def)




text \<open>
  C9 fails on the retry after a status other than 200: the loop goes on to the next
  attempt without giving the request and the response of the failed attempt back (and
  without closing its body stream), where the retry after a stream error does. Here
  attempt 1 is answered with 503 and attempt 2 succeeds.
\<close>

theorem downloadFile_status_retry_keeps_request_and_response:
  "downloadFile env_503_then_ok ''u'' (Join ''d'' ''f'') True =
     ([AcquireRequest 1, AcquireResponse 1, ClientDo 1 ''GET'' ''u'', Sleep 5,
       AcquireRequest 2, AcquireResponse 2, ClientDo 2 ''GET'' ''u'',
       OsCreate 2 (Join ''d'' ''f''), SpawnUpdateProgress 2, BodyWriteTo 2,
       CloseBodyStream 2, FileClose 2, ReleaseRequest 2, ReleaseResponse 2], None)"
  unfolding downloadFile_def
  apply (subst attempt_loop.simps)
  apply (subst attempt_loop.simps)
  apply (simp add: run_attempt_def select_stream_def env_ok_def env_503_then_ok_def
           maxRetries_def StatusOK_def retryDelay_def)
  done

text \<open>
  C10. An attempt whose streaming ends with \<^verbatim>\<open>io.EOF\<close> is a success: the attempt
  closes the body stream and the file, gives the request and the response back, the loop
  is left without another attempt, and the transfer returns \<^verbatim>\<open>nil\<close>.
\<close>

theorem downloadFile_eof_is_success:
  assumes "attempt \<le> maxRetries" "do_err (env attempt) = None"
    "status (env attempt) = StatusOK" "create_err (env attempt) = None"
    "writer_err (env attempt) = None" "\<not> ctx_done (env attempt)"
    "body_err (env attempt) = Some IoEOF"
  shows "attempt_loop env url dst doRetries attempt =
     ([AcquireRequest attempt, AcquireResponse attempt, ClientDo attempt ''GET'' url,
       OsCreate attempt dst, SpawnUpdateProgress attempt, BodyWriteTo attempt,
       CloseBodyStream attempt, FileClose attempt, ReleaseRequest attempt,
       ReleaseResponse attempt], None)"
  using assms by (intro loop_break run_attempt_eof)

theorem downloadFile_eof_is_success_witness:
  "(1::nat) \<le> maxRetries \<and> do_err (env_eof 1) = None \<and> status (env_eof 1) = StatusOK \<and>
   create_err (env_eof 1) = None \<and> writer_err (env_eof 1) = None \<and> \<not> ctx_done (env_eof 1) \<and>
   body_err (env_eof 1) = Some IoEOF \<and>
   snd (attempt_loop env_eof ''u'' (Join ''d'' ''f'') True 1) = None"
proof -
  have h: "(1::nat) \<le> maxRetries" "do_err (env_eof 1) = None" "status (env_eof 1) = StatusOK"
    "create_err (env_eof 1) = None" "writer_err (env_eof 1) = None" "\<not> ctx_done (env_eof 1)"
    "body_err (env_eof 1) = Some IoEOF"
    by (simp_all add: env_eof_def env_ok_def StatusOK_def maxRetries_def)
  from downloadFile_eof_is_success
         [where attempt = 1 and env = env_eof and url = "''u''" and dst = "Join ''d'' ''f''"
            and doRetries = True, OF h] h
  show ?thesis by simp
qed

section \<open>Reading the metadata\<close>

lemma be_value_snoc: "be_value (bs @ [b]) = 256 * be_value bs + unat b"
  by (simp add: be_value_def)

lemma be_word_snoc: "be_word (bs @ [b]) = push_bit 8 (be_word bs) OR ucast b"
  by (simp add: be_word_def)

lemma be_value_less: "be_value bs < 2 ^ (8 * length bs)"
proof (induction bs rule: rev_induct)
  case Nil
  then show ?case by (simp add: be_value_def)
next
  case (snoc b bs)
  have "unat b < 256" using unsigned_less[of b, where ?'a = nat] by simp
  moreover have "be_value bs + 1 \<le> 2 ^ (8 * length bs)" using snoc by simp
  then have "256 * (be_value bs + 1) \<le> 256 * 2 ^ (8 * length bs)" by (rule mult_le_mono2)
  ultimately show ?case by (simp add: be_value_snoc power_add)
qed

lemma or_byte_nat:
  fixes a b :: nat
  assumes "b < 256"
  shows "push_bit 8 a OR b = 256 * a + b"
proof -
  have "push_bit 8 a AND b = 0"
  proof (rule bit_eqI)
    fix n
    show "bit (push_bit 8 a AND b) n = bit (0::nat) n"
    proof (cases "n < 8")
      case True then show ?thesis by (simp add: bit_simps)
    next
      case False
      then have "(2::nat) ^ 8 \<le> 2 ^ n" by (intro power_increasing) simp_all
      with assms have "b < 2 ^ n" by simp
      then have "\<not> bit b n" by (simp add: bit_iff_odd)
      then show ?thesis by (simp add: bit_simps)
    qed
  qed
  then have "push_bit 8 a + b = push_bit 8 a OR b" by (rule disjunctive_add_eq_or)
  then show ?thesis by (simp add: push_bit_eq_mult)
qed

lemma unat_be_word:
  "8 * length bs \<le> LENGTH('a::len) \<Longrightarrow> unat (be_word bs :: 'a word) = be_value bs"
proof (induction bs rule: rev_induct)
  case Nil
  then show ?case by (simp add: be_word_def be_value_def)
next
  case (snoc b bs)
  then have ih: "unat (be_word bs :: 'a word) = be_value bs" by simp
  have bb: "unat b < 256" using unsigned_less[of b, where ?'a = nat] by simp
  have lt: "be_value (bs @ [b]) < 2 ^ LENGTH('a)"
    using be_value_less[of "bs @ [b]"] snoc.prems
    by (meson le_trans linorder_not_le one_le_numeral power_increasing)
  have "unat (be_word (bs @ [b]) :: 'a word)
        = take_bit LENGTH('a) (push_bit 8 (be_value bs)) OR take_bit LENGTH('a) (unat b)"
    by (simp add: be_word_snoc unsigned_or_eq unsigned_push_bit_eq unsigned_ucast_eq ih)
  also have "\<dots> = take_bit LENGTH('a) (push_bit 8 (be_value bs) OR unat b)"
    by (simp add: bit_eq_iff bit_simps)
  also have "\<dots> = take_bit LENGTH('a) (be_value (bs @ [b]))"
    by (simp add: or_byte_nat[OF bb] be_value_snoc)
  also have "\<dots> = be_value (bs @ [b])"
    using lt by (simp add: take_bit_nat_eq_self)
  finally show ?case .
qed


lemma length_bytes_at: "off + n \<le> length (elems tmd) \<Longrightarrow> length (bytes_at tmd off n) = n"
  by (simp add: bytes_at_def)

lemma read_slice_in_range:
  assumes "hi \<le> length (elems tmd)" and "lo + LENGTH('a::len) div 8 = hi"
  shows "(read_slice tmd lo hi :: outcome + 'a word)
           = Inr (be_word (bytes_at tmd lo (LENGTH('a) div 8)))"
proof -
  from assms have lo: "lo \<le> hi" and n: "hi - lo = LENGTH('a) div 8" by simp_all
  from assms have s: "slice_expr tmd lo hi = Some (bytes_at tmd lo (LENGTH('a) div 8))"
    by (auto simp: slice_expr_def cap_def bytes_at_def)
  from assms have "length (bytes_at tmd lo (LENGTH('a) div 8)) = LENGTH('a) div 8"
    by (intro length_bytes_at) simp
  then show ?thesis
    by (simp add: read_slice_def s binary_Read_def)
qed

lemma content_ID_in_range:
  assumes "2820 + 48 * i + 4 \<le> length (elems tmd)"
  shows "content_ID tmd i = Inr (be_word (bytes_at tmd (0xB04 + 0x30 * i) 4))"
  using assms by (simp add: content_ID_def binary_Read_def bytes_at_def Let_def)

lemma content_flags_in_range:
  assumes "2820 + 48 * i + 7 < length (elems tmd)"
  shows "content_flags tmd i = Some (record_flags tmd i)"
  using assms by (simp add: content_flags_def index_expr_def record_flags_def Let_def)

lemma has_h3_bit: "has_h3 flags \<longleftrightarrow> bit flags 1"
proof
  assume "has_h3 flags"
  then have "bit (flags AND 2) 1 = bit (2 :: 8 word) 1" by (simp add: has_h3_def)
  then show "bit flags 1" by (simp add: bit_simps)
next
  assume b: "bit flags 1"
  have "flags AND 2 = 2"
  proof (rule bit_eqI)
    fix n
    show "bit (flags AND 2) n = bit (2 :: 8 word) n"
      using b by (auto simp: bit_simps)
  qed
  then show "has_h3 flags" by (simp add: has_h3_def)
qed

lemma read_sizes_in_range:
  "\<forall>i\<in>set idx. 0xB04 + 0x30 * i + 16 \<le> length (elems tmd) \<Longrightarrow>
   read_sizes tmd idx titleSize contentSizes =
     Inr (titleSize + sum_list (map (size_word tmd) idx), contentSizes @ map (size_word tmd) idx)"
proof (induction idx arbitrary: titleSize contentSizes)
  case Nil
  then show ?case by simp
next
  case (Cons i idx)
  have "(read_slice tmd (0xB04 + 0x30 * i + 8) (0xB04 + 0x30 * i + 8 + 8) :: outcome + 64 word)
          = Inr (size_word tmd i)"
    unfolding size_word_def using Cons.prems
    by (subst read_slice_in_range) simp_all
  with Cons show ?case by (simp add: add.assoc)
qed

lemma unat_size_word:
  "0xB04 + 0x30 * i + 16 \<le> length (elems tmd) \<Longrightarrow> unat (size_word tmd i) = record_size tmd i"
  unfolding size_word_def record_size_def
  by (rule unat_be_word) (simp add: bytes_at_def)

lemma long_enough_record:
  assumes "long_enough tmd" "i < tmd_count tmd"
  shows "0xB04 + 0x30 * i + 0x30 \<le> length (elems tmd)"
proof -
  from assms have "0xB04 + 0x30 * tmd_count tmd \<le> length (elems tmd)"
    by (auto simp: long_enough_def required_length_def split: if_splits)
  moreover from assms(2) have "0x30 * (i + 1) \<le> 0x30 * tmd_count tmd"
    by (intro mult_le_mono2) simp
  ultimately show ?thesis by simp
qed

text \<open>
  On a metadata buffer long enough for the fields it declares, the reads of the code
  succeed and give the fields as the format lays them out.
\<close>

lemma reads_on_long_buffer:
  assumes "long_enough tmd"
  shows "map_sum id unat (read_slice tmd 476 478 :: outcome + 16 word) = Inr (tmd_version tmd) \<and>
         map_sum id unat (read_slice tmd 478 480 :: outcome + 16 word) = Inr (tmd_count tmd) \<and>
         (\<exists>titleSize contentSizes.
            read_sizes tmd [0..<tmd_count tmd] 0 [] = Inr (titleSize, contentSizes) \<and>
            map unat contentSizes = map (record_size tmd) [0..<tmd_count tmd]) \<and>
         (\<forall>i<tmd_count tmd.
            map_sum id unat (content_ID tmd i) = Inr (record_ID tmd i) \<and>
            content_flags tmd i = Some (record_flags tmd i) \<and>
            (has_h3 (record_flags tmd i) \<longleftrightarrow> bit (record_flags tmd i) 1))"
proof (intro conjI allI impI)
  from assms have len: "480 \<le> length (elems tmd)" by (simp add: long_enough_def)
  show "map_sum id unat (read_slice tmd 476 478 :: outcome + 16 word) = Inr (tmd_version tmd)"
    using len by (subst read_slice_in_range) (simp_all add: tmd_version_def unat_be_word bytes_at_def)
  show "map_sum id unat (read_slice tmd 478 480 :: outcome + 16 word) = Inr (tmd_count tmd)"
    using len by (subst read_slice_in_range) (simp_all add: tmd_count_def unat_be_word bytes_at_def)
  have rng: "\<forall>i\<in>set [0..<tmd_count tmd]. 0xB04 + 0x30 * i + 16 \<le> length (elems tmd)"
    using long_enough_record[OF assms] by fastforce
  show "\<exists>titleSize contentSizes.
            read_sizes tmd [0..<tmd_count tmd] 0 [] = Inr (titleSize, contentSizes) \<and>
            map unat contentSizes = map (record_size tmd) [0..<tmd_count tmd]"
    using rng by (simp add: read_sizes_in_range[OF rng] unat_size_word)
next
  fix i assume i: "i < tmd_count tmd"
  from long_enough_record[OF assms i]
  have r: "0xB04 + 0x30 * i + 0x30 \<le> length (elems tmd)" .
  show "map_sum id unat (content_ID tmd i) = Inr (record_ID tmd i)"
    using r by (subst content_ID_in_range) (simp_all add: record_ID_def unat_be_word bytes_at_def)
  show "content_flags tmd i = Some (record_flags tmd i)"
    using r by (intro content_flags_in_range) simp
  show "has_h3 (record_flags tmd i) \<longleftrightarrow> bit (record_flags tmd i) 1"
    by (rule has_h3_bit)
qed


lemma tmd_two_records_count: "tmd_count tmd_two_records = 2"
  by (simp add: tmd_count_def tmd_two_records_def bytes_at_def be_value_def)

lemma tmd_two_records_version: "tmd_version tmd_two_records = 7"
  by (simp add: tmd_version_def tmd_two_records_def bytes_at_def be_value_def)

lemma tmd_two_records_length: "length (elems tmd_two_records) = 2916"
  by (simp add: tmd_two_records_def record_bytes_def)

lemma tmd_two_records_long_enough: "long_enough tmd_two_records"
  by (simp add: long_enough_def required_length_def tmd_two_records_count tmd_two_records_length)

section \<open>Truncated metadata\<close>

lemma downloadFile_ok:
  assumes "env 1 = env_ok"
  shows "downloadFile env url dst doRetries =
     ([AcquireRequest 1, AcquireResponse 1, ClientDo 1 ''GET'' url, OsCreate 1 dst,
       SpawnUpdateProgress 1, BodyWriteTo 1, CloseBodyStream 1, FileClose 1,
       ReleaseRequest 1, ReleaseResponse 1], None)"
proof -
  from assms have e: "env (Suc 0) = env_ok" by simp
  show ?thesis
    unfolding downloadFile_def
    by (rule loop_break)
       (simp_all add: e run_attempt_def select_stream_def env_ok_def maxRetries_def
          StatusOK_def)
qed

lemma downloadFile_404_once:
  assumes "env 1 = env_404 1"
  shows "downloadFile env url dst False =
     ([AcquireRequest 1, AcquireResponse 1, ClientDo 1 ''GET'' url, CloseBodyStream 1,
       ReleaseRequest 1, ReleaseResponse 1], Some (StatusError 1 404))"
proof -
  from assms have e: "env (Suc 0) = env_404 1" by simp
  show ?thesis
    unfolding downloadFile_def
    by (rule loop_return)
       (simp_all add: e run_attempt_def env_404_def env_ok_def maxRetries_def StatusOK_def)
qed

lemma slice_truncated:
  "(read_slice tmd_truncated 476 478 :: outcome + 16 word) = Inr 0"
  "(read_slice tmd_truncated 478 480 :: outcome + 16 word) = Inr 1"
  by (simp_all add: read_slice_def slice_expr_def cap_def tmd_truncated_def binary_Read_def
        be_word_def numeral_2_eq_2)

lemma slice_short:
  "(read_slice tmd_short 476 478 :: outcome + 16 word) = Inr 0"
  "(read_slice tmd_short 478 480 :: outcome + 16 word) = Inr 0"
  by (simp_all add: read_slice_def slice_expr_def cap_def tmd_short_def binary_Read_def
        be_word_def numeral_2_eq_2)

text \<open>
  C1 fails on the code. A metadata file of 480 bytes that declares one content record
  is shorter than the record table needs, and the acquisition panics in the slice
  expression of the size loop. A file of 100 bytes in a backing array of 512 is read past
  its length: version and count come out as 0 and the acquisition ends without an error.
  No truncation error is returned in either case.
\<close>

theorem truncated_metadata_panics_or_passes:
  "length (elems tmd_truncated) < required_length tmd_truncated \<and>
   snd (DownloadTitle (world_ok\<lparr>readFile := Inr tmd_truncated\<rparr>) ''0005000010101010'' ''out''
          True False) = Panicked \<and>
   length (elems tmd_short) < required_length tmd_short \<and>
   snd (DownloadTitle (world_ok\<lparr>readFile := Inr tmd_short\<rparr>) ''0005000010101010'' ''out''
          True False) = Returned None"
proof (intro conjI)
  show "length (elems tmd_truncated) < required_length tmd_truncated"
    by (simp add: required_length_def tmd_count_def bytes_at_def be_value_def tmd_truncated_def)
  have "read_sizes tmd_truncated [0] 0 [] = Inl Panicked"
    by (simp add: read_slice_def slice_expr_def cap_def tmd_truncated_def)
  then show "snd (DownloadTitle (world_ok\<lparr>readFile := Inr tmd_truncated\<rparr>)
                ''0005000010101010'' ''out'' True False) = Panicked"
    by (simp add: DownloadTitle_def metadata_stage_def ticket_stage_def sizes_stage_def
        prepend_def world_ok_def downloadFile_ok downloadFile_404_once slice_truncated
        TrimRight_def Let_def)
  show "length (elems tmd_short) < required_length tmd_short"
    by (simp add: required_length_def tmd_short_def)
  show "snd (DownloadTitle (world_ok\<lparr>readFile := Inr tmd_short\<rparr>)
           ''0005000010101010'' ''out'' True False) = Returned None"
    by (simp add: DownloadTitle_def metadata_stage_def ticket_stage_def sizes_stage_def
        cert_stage_def contents_stage_def decrypt_stage_def
        prepend_def world_ok_def downloadFile_ok downloadFile_404_once slice_short
        TrimRight_def Let_def)
qed

section \<open>Cancellation inside the loop over the content records\<close>

lemma content_step_actions:
  "a \<in> set (fst (content_step w tmd sizes baseURL outputDir i)) \<Longrightarrow> loop_action a"
  by (auto simp: content_step_def fetch_h3_def Let_def loop_action_def loop_site_def
      split: prod.splits option.splits if_splits sum.splits loop_control.splits)

lemma content_step_cancel:
  assumes "content_step w tmd sizes baseURL outputDir i = (evs, ctl)"
    and "Cancelled s True \<in> set evs"
  shows "ctl = LoopBreak \<and> (\<exists>pre. evs = pre @ [Cancelled s True]) \<and> cancelled w s"
  using assms
  by (auto simp: content_step_def fetch_h3_def Let_def
      split: prod.splits option.splits if_splits sum.splits loop_control.splits)


lemma content_loop_actions:
  "a \<in> set (fst (content_loop w tmd sizes baseURL outputDir idx)) \<Longrightarrow> loop_action a"
proof (induction idx)
  case Nil
  then show ?case by simp
next
  case (Cons i idx)
  then show ?case
    using content_step_actions[of a w tmd sizes baseURL outputDir i]
    by (auto split: prod.splits loop_control.splits)
qed

lemma content_loop_cancel:
  assumes "content_loop w tmd sizes baseURL outputDir idx = (evs, r)"
    and "Cancelled s True \<in> set evs"
  shows "r = None \<and> (\<exists>pre. evs = pre @ [Cancelled s True]) \<and> cancelled w s"
  using assms
proof (induction idx arbitrary: evs r)
  case Nil
  then show ?case by simp
next
  case (Cons i idx)
  obtain e1 ctl where st: "content_step w tmd sizes baseURL outputDir i = (e1, ctl)"
    by (cases "content_step w tmd sizes baseURL outputDir i")
  show ?case
  proof (cases ctl)
    case LoopNext
    obtain e2 r2 where rest: "content_loop w tmd sizes baseURL outputDir idx = (e2, r2)"
      by (cases "content_loop w tmd sizes baseURL outputDir idx")
    from Cons.prems(1) st LoopNext rest have evs: "evs = e1 @ e2" and r: "r = r2" by simp_all
    from content_step_cancel[OF st] LoopNext have "Cancelled s True \<notin> set e1" by auto
    with Cons.prems(2) evs have "Cancelled s True \<in> set e2" by simp
    from Cons.IH[OF rest this] evs r show ?thesis by auto
  next
    case LoopBreak
    with Cons.prems(1) st have "evs = e1" "r = None" by simp_all
    with content_step_cancel[OF st] Cons.prems(2) show ?thesis by simp
  next
    case (LoopReturn out)
    with Cons.prems(1) st have "evs = e1" by simp
    moreover from content_step_cancel[OF st] LoopReturn have "Cancelled s True \<notin> set e1"
      by auto
    ultimately show ?thesis using Cons.prems(2) by simp
  qed
qed

lemma stops_after_prepend:
  assumes "stops_after s r" and "Cancelled s True \<notin> set evs"
    and "\<forall>d b. DecryptContents d b \<notin> set evs"
  shows "stops_after s (prepend evs r)"
proof -
  { assume "Cancelled s True \<in> set (fst r)"
    with assms(1) obtain pre post where
      "snd r = Returned None" "\<forall>d b. DecryptContents d b \<notin> set (fst r)"
      "fst r = pre @ [Cancelled s True] @ post"
      "set post \<subseteq> {Cancelled PollDecrypt True, CloseCert}"
      unfolding stops_after_def by blast
    then have "snd r = Returned None \<and> (\<forall>d b. DecryptContents d b \<notin> set (evs @ fst r)) \<and>
        (\<exists>pre post. evs @ fst r = pre @ [Cancelled s True] @ post \<and>
                     set post \<subseteq> {Cancelled PollDecrypt True, CloseCert})"
      using assms(3) by (metis Un_iff append.assoc set_append) }
  with assms(2) show ?thesis
    unfolding stops_after_def prepend_def by auto
qed

lemma stops_after_no_cancel:
  "Cancelled s True \<notin> set evs \<Longrightarrow> stops_after s (evs, out)"
  by (simp add: stops_after_def)

lemma contents_stage_stops:
  assumes "loop_site s" and "cancelled w s \<longrightarrow> cancelled w PollDecrypt"
  shows "stops_after s (contents_stage w tmd n sizes baseURL outputDir doDecryption del)"
proof -
  obtain evs r where loop:
    "content_loop w tmd sizes baseURL outputDir [0..<unat n] = (evs, r)"
    by (cases "content_loop w tmd sizes baseURL outputDir [0..<unat n]")
  have acts: "\<forall>a\<in>set evs. loop_action a"
    using content_loop_actions[of _ w tmd sizes baseURL outputDir "[0..<unat n]"] loop by simp
  then have nodec: "\<forall>d b. DecryptContents d b \<notin> set evs"
    by (auto simp: loop_action_def)
  show ?thesis
  proof (cases "Cancelled s True \<in> set evs")
    case True
    from content_loop_cancel[OF loop True] obtain pre where
      r: "r = None" and evs: "evs = pre @ [Cancelled s True]" and c: "cancelled w s" by blast
    from c assms(2) have d: "cancelled w PollDecrypt" by simp
    define dec where "dec = (if doDecryption then [Cancelled PollDecrypt True] else [])"
    have "decrypt_stage w outputDir doDecryption del = (dec, Returned None)"
      using d by (simp add: decrypt_stage_def dec_def)
    then have res: "contents_stage w tmd n sizes baseURL outputDir doDecryption del
                      = (pre @ [Cancelled s True] @ dec, Returned None)"
      using loop r evs by (simp add: contents_stage_def prepend_def)
    have post: "set dec \<subseteq> {Cancelled PollDecrypt True, CloseCert}"
      by (auto simp: dec_def)
    have "\<forall>d b. DecryptContents d b \<notin> set (pre @ [Cancelled s True] @ dec)"
      using nodec evs by (auto simp: dec_def)
    with post show ?thesis
      unfolding stops_after_def res by auto
  next
    case False
    from assms(1) have ns: "s \<noteq> PollDecrypt" by (auto simp: loop_site_def)
    show ?thesis
    proof (cases r)
      case None
      have "stops_after s (decrypt_stage w outputDir doDecryption del)"
        using ns by (auto simp: decrypt_stage_def stops_after_def)
      then show ?thesis
        using loop None False ns
        by (auto simp: contents_stage_def prepend_def stops_after_def decrypt_stage_def
            split: if_splits option.splits)
    next
      case (Some out)
      with loop False show ?thesis
        by (simp add: contents_stage_def stops_after_def)
    qed
  qed
qed


lemma stops_after_wrap:
  assumes "stops_after s (evs, out)" and "Cancelled s True \<notin> set front"
    and "\<forall>d b. DecryptContents d b \<notin> set front" and "s \<noteq> PollDecrypt"
  shows "stops_after s (front @ evs @ [CloseCert], out)"
proof -
  { assume "Cancelled s True \<in> set evs"
    with assms(1) obtain pre post where
      o: "out = Returned None" and nd: "\<forall>d b. DecryptContents d b \<notin> set evs"
      and e: "evs = pre @ [Cancelled s True] @ post"
      and p: "set post \<subseteq> {Cancelled PollDecrypt True, CloseCert}"
      unfolding stops_after_def by auto
    have "front @ evs @ [CloseCert] = (front @ pre) @ [Cancelled s True] @ (post @ [CloseCert])"
      using e by simp
    moreover have "set (post @ [CloseCert]) \<subseteq> {Cancelled PollDecrypt True, CloseCert}"
      using p by auto
    ultimately have "\<exists>pre post. front @ evs @ [CloseCert] = pre @ [Cancelled s True] @ post \<and>
                     set post \<subseteq> {Cancelled PollDecrypt True, CloseCert}"
      by blast
    with o nd assms(3) have "out = Returned None \<and>
        (\<forall>d b. DecryptContents d b \<notin> set (front @ evs @ [CloseCert])) \<and>
        (\<exists>pre post. front @ evs @ [CloseCert] = pre @ [Cancelled s True] @ post \<and>
                     set post \<subseteq> {Cancelled PollDecrypt True, CloseCert})"
      by auto }
  with assms(2) show ?thesis
    unfolding stops_after_def by auto
qed

lemma loop_site_simps:
  "loop_site s \<Longrightarrow> s \<noteq> PollDecrypt \<and> s \<noteq> PollCert \<and> s \<noteq> PollTik \<and> s \<noteq> PollTmd"
  by (auto simp: loop_site_def)

lemma cert_stage_stops:
  assumes "loop_site s" and "cancelled w s \<longrightarrow> cancelled w PollDecrypt"
  shows "stops_after s (cert_stage w tmd n sizes baseURL outputDir doDecryption del)"
proof -
  obtain evs out where c:
    "contents_stage w tmd n sizes baseURL outputDir doDecryption del = (evs, out)"
    by (cases "contents_stage w tmd n sizes baseURL outputDir doDecryption del")
  from contents_stage_stops[OF assms, of tmd n sizes baseURL outputDir doDecryption del] c
  have "stops_after s (evs, out)" by simp
  from stops_after_wrap[OF this, of "[GenerateCert n, CreateCert (Join outputDir ''title.cert''),
      WriteCert cert, LogInfo (Join outputDir ''title.cert'')]" for cert]
  have w: "stops_after s ([GenerateCert n, CreateCert (Join outputDir ''title.cert''),
      WriteCert cert, LogInfo (Join outputDir ''title.cert'')] @ evs @ [CloseCert], out)" for cert
    using loop_site_simps[OF assms(1)] by simp
  show ?thesis
    using loop_site_simps[OF assms(1)] c w
    by (auto simp: cert_stage_def Let_def stops_after_no_cancel
        split: sum.splits option.splits)
qed

lemma sizes_stage_stops:
  assumes "loop_site s" and "cancelled w s \<longrightarrow> cancelled w PollDecrypt"
  shows "stops_after s (sizes_stage w tmd baseURL outputDir doDecryption del)"
  using cert_stage_stops[OF assms]
  by (auto simp: sizes_stage_def stops_after_no_cancel
      intro!: stops_after_prepend split: sum.splits prod.splits)

lemma ticket_stage_events:
  "a \<in> set (fst (ticket_stage w titleID v baseURL outputDir)) \<Longrightarrow>
   \<not> loop_action a \<and> (\<forall>d b. a \<noteq> DecryptContents d b)"
  by (auto simp: ticket_stage_def Let_def loop_action_def loop_site_def
      split: prod.splits option.splits sum.splits if_splits)

lemma metadata_stage_stops:
  assumes "loop_site s" and "cancelled w s \<longrightarrow> cancelled w PollDecrypt"
  shows "stops_after s (metadata_stage w titleID baseURL outputDir doDecryption del)"
proof -
  have tik1: "Cancelled s True \<notin> set (fst (ticket_stage w titleID v baseURL outputDir))" for v
    using ticket_stage_events[of "Cancelled s True" w titleID v baseURL outputDir] assms(1)
    by (auto simp: loop_action_def)
  have tik2: "DecryptContents d b \<notin> set (fst (ticket_stage w titleID v baseURL outputDir))"
    for v d b
    using ticket_stage_events[of "DecryptContents d b" w titleID v baseURL outputDir]
    by auto
  note tik = tik1 tik2
  have tik3: "ticket_stage w titleID v baseURL outputDir = (tik, r) \<Longrightarrow>
              Cancelled s True \<notin> set tik \<and> (\<forall>d b. DecryptContents d b \<notin> set tik)" for v tik r
    using tik1[of v] tik2[of _ _ v] by simp
  show ?thesis
    using loop_site_simps[OF assms(1)] sizes_stage_stops[OF assms]
    by (auto simp: metadata_stage_def Let_def stops_after_no_cancel
        intro!: stops_after_prepend dest: tik3 split: prod.splits option.splits sum.splits)
qed

lemma DownloadTitle_stops:
  assumes "loop_site s" and "cancelled w s \<longrightarrow> cancelled w PollDecrypt"
  shows "stops_after s (DownloadTitle w titleID outputDirectory doDecryption del)"
  using metadata_stage_stops[OF assms]
  by (auto simp: DownloadTitle_def Let_def stops_after_no_cancel
      intro!: stops_after_prepend split: option.splits)

lemma upt_two: "[0..<2] = [0, Suc 0]"
  by (simp add: numeral_2_eq_2)

lemma two_records_reads:
  "(read_slice tmd_two_records 476 478 :: outcome + 16 word) = Inr 7"
  "(read_slice tmd_two_records 478 480 :: outcome + 16 word) = Inr 2"
  "read_sizes tmd_two_records [0, Suc 0] 0 [] = Inr (3000, [1000, 2000])"
  "content_ID tmd_two_records 0 = Inr 0"
  "content_ID tmd_two_records (Suc 0) = Inr 1"
  "content_flags tmd_two_records 0 = Some 0"
  "content_flags tmd_two_records (Suc 0) = Some 2"
  by (simp_all add: read_slice_def slice_expr_def cap_def tmd_two_records_def record_bytes_def
      binary_Read_def be_word_def content_ID_def content_flags_def index_expr_def Let_def
      nth_append)


lemma hex8_examples: "hex8 0 = ''00000000''" "hex8 1 = ''00000001''"
  by (simp_all add: hex8_def hexdigit_def drop_bit_eq_div)

lemma env_ok_transfer:
  "downloadFile (\<lambda>k. env_ok) url dst doRetries =
     ([AcquireRequest 1, AcquireResponse 1, ClientDo 1 ''GET'' url, OsCreate 1 dst,
       SpawnUpdateProgress 1, BodyWriteTo 1, CloseBodyStream 1, FileClose 1,
       ReleaseRequest 1, ReleaseResponse 1], None)"
  by (rule downloadFile_ok) simp

lemma env_404_transfer:
  "downloadFile env_404 url dst False =
     ([AcquireRequest 1, AcquireResponse 1, ClientDo 1 ''GET'' url, CloseBodyStream 1,
       ReleaseRequest 1, ReleaseResponse 1], Some (StatusError 1 404))"
  by (rule downloadFile_404_once) simp

lemma env_ctx_transfer:
  "downloadFile env_ctx_done url dst doRetries =
     ([AcquireRequest 1, AcquireResponse 1, ClientDo 1 ''GET'' url, OsCreate 1 dst,
       SpawnUpdateProgress 1, CloseBodyStream 1, FileClose 1, ReleaseRequest 1,
       ReleaseResponse 1], Some ContextErr)"
  unfolding downloadFile_def
  by (rule loop_return)
     (simp_all add: run_attempt_def select_stream_def env_ctx_done_def env_ok_def
        maxRetries_def StatusOK_def)

lemma world_cancel_run:
  "snd (DownloadTitle world_cancel ''0005000010101010'' ''out/'' True False) = Returned None \<and>
   Cancelled (PollRecord 0) True
     \<in> set (fst (DownloadTitle world_cancel ''0005000010101010'' ''out/'' True False))"
  by (simp add: DownloadTitle_def metadata_stage_def ticket_stage_def sizes_stage_def
      cert_stage_def contents_stage_def decrypt_stage_def content_step_def fetch_h3_def
      has_h3_def prepend_def world_cancel_def world_ok_def env_ok_transfer env_404_transfer
      two_records_reads hex8_examples TrimRight_def Let_def upt_two
      del: read_sizes.simps)

text \<open>
  C8, as the code has it. When a poll inside the loop over the content records sees the
  flag of the progress reporter set, and the flag is still set at the poll before the
  decryption, the acquisition returns \<^verbatim>\<open>nil\<close>, \<^verbatim>\<open>DecryptContents\<close>, the only step
  that may delete downloaded files, is not called, and nothing is fetched after that
  poll: what follows it is at most the poll before the decryption and the closing of the
  certificate file.
\<close>

theorem cancellation_in_content_loop_ends_quietly:
  assumes "DownloadTitle w titleID outputDirectory doDecryption del = (tr, out)"
    and "Cancelled s True \<in> set tr" and "loop_site s"
    and "cancelled w s \<longrightarrow> cancelled w PollDecrypt"
  shows "out = Returned None \<and>
         (\<forall>d b. DecryptContents d b \<notin> set tr) \<and>
         (\<exists>pre post. tr = pre @ [Cancelled s True] @ post \<and>
                      set post \<subseteq> {Cancelled PollDecrypt True, CloseCert})"
  using DownloadTitle_stops[OF assms(3,4), of titleID outputDirectory doDecryption del] assms(1,2)
  by (simp add: stops_after_def)


theorem cancellation_in_content_loop_ends_quietly_witness:
  "loop_site (PollRecord 0) \<and>
   Cancelled (PollRecord 0) True
     \<in> set (fst (DownloadTitle world_cancel ''0005000010101010'' ''out/'' True False)) \<and>
   snd (DownloadTitle world_cancel ''0005000010101010'' ''out/'' True False) = Returned None \<and>
   DecryptContents ''out'' False
     \<notin> set (fst (DownloadTitle world_cancel ''0005000010101010'' ''out/'' True False))"
proof -
  have run: "DownloadTitle world_cancel ''0005000010101010'' ''out/'' True False =
      (fst (DownloadTitle world_cancel ''0005000010101010'' ''out/'' True False),
       snd (DownloadTitle world_cancel ''0005000010101010'' ''out/'' True False))"
    by simp
  have seen: "Cancelled (PollRecord 0) True
      \<in> set (fst (DownloadTitle world_cancel ''0005000010101010'' ''out/'' True False))"
    using world_cancel_run by simp
  have site: "loop_site (PollRecord 0)"
    by (simp add: loop_site_def)
  have stays: "cancelled world_cancel (PollRecord 0) \<longrightarrow> cancelled world_cancel PollDecrypt"
    by (simp add: world_cancel_def)
  from cancellation_in_content_loop_ends_quietly[OF run seen site stays] seen site
  show ?thesis by blast
qed

text \<open>
  C8, as the spec has it, fails. The poll at the end of the first record sees the flag
  set and the loop is left, but the poll before the decryption sees it unset:
  \<^verbatim>\<open>DecryptContents\<close> runs and its error is returned. And when the context is cancelled
  while the first content is fetched and the flag is not set, the error of the context is
  returned.
\<close>

theorem cancellation_in_loop_can_decrypt_or_fail:
  "Cancelled (PollRecord 0) True
     \<in> set (fst (DownloadTitle world_flag_unset ''0005000010101010'' ''out/'' True False)) \<and>
   DecryptContents ''out'' False
     \<in> set (fst (DownloadTitle world_flag_unset ''0005000010101010'' ''out/'' True False)) \<and>
   snd (DownloadTitle world_flag_unset ''0005000010101010'' ''out/'' True False)
     = Returned (Some (External ''decrypt'')) \<and>
   snd (downloadFile (net world_ctx_app (FetchApp 0))
          ''http://ccs.cdn.c.shop.nintendowifi.net/ccs/download/0005000010101010/00000000''
          (Join ''out'' ''00000000.app'') True) = Some ContextErr \<and>
   snd (DownloadTitle world_ctx_app ''0005000010101010'' ''out/'' True False)
     = Returned (Some ContextErr)"
  by (simp add: DownloadTitle_def metadata_stage_def ticket_stage_def sizes_stage_def
      cert_stage_def contents_stage_def decrypt_stage_def content_step_def fetch_h3_def
      has_h3_def prepend_def world_flag_unset_def world_ctx_app_def world_ok_def
      env_ok_transfer env_404_transfer env_ctx_transfer
      two_records_reads hex8_examples TrimRight_def Let_def upt_two
      del: read_sizes.simps)

section \<open>The ticket\<close>

lemma run_attempt_no_retry:
  "snd (run_attempt e url dst False attempt) \<noteq> Continue \<and>
   filter is_schedule (fst (run_attempt e url dst False attempt)) = [ClientDo attempt ''GET'' url]"
  by (auto simp: run_attempt_def select_stream_def Let_def is_schedule_def
      split: option.splits if_splits)

lemma downloadFile_no_retry_once:
  "filter is_schedule (fst (downloadFile env url dst False)) = [ClientDo 1 ''GET'' url]"
proof -
  obtain evs ctl where ra: "run_attempt (env 1) url dst False 1 = (evs, ctl)"
    by (cases "run_attempt (env 1) url dst False 1")
  with run_attempt_no_retry[of "env 1" url dst 1]
  have c: "ctl \<noteq> Continue" and f: "filter is_schedule evs = [ClientDo 1 ''GET'' url]"
    by simp_all
  have "fst (attempt_loop env url dst False 1) = evs"
    using ra c by (subst attempt_loop.simps) (auto simp: maxRetries_def split: control.splits)
  with f show ?thesis by (simp add: downloadFile_def)
qed

lemma loop_action_not_ticket: "loop_action a \<Longrightarrow> \<not> ticket_action a"
  by (auto simp: loop_action_def ticket_action_def split: action.splits fetch_site.splits)

lemma contents_stage_no_ticket:
  "a \<in> set (fst (contents_stage w tmd n sizes baseURL outputDir doDecryption del)) \<Longrightarrow>
   \<not> ticket_action a"
  using content_loop_actions[of a w tmd sizes baseURL outputDir "[0..<unat n]"]
    loop_action_not_ticket[of a]
  by (auto simp: contents_stage_def prepend_def decrypt_stage_def ticket_action_def
      split: prod.splits option.splits if_splits)

lemma cert_stage_no_ticket:
  "a \<in> set (fst (cert_stage w tmd n sizes baseURL outputDir doDecryption del)) \<Longrightarrow>
   \<not> ticket_action a"
  using contents_stage_no_ticket[of a w tmd n sizes baseURL outputDir doDecryption del]
  by (auto simp: cert_stage_def Let_def ticket_action_def
      split: prod.splits option.splits sum.splits if_splits)

lemma sizes_stage_no_ticket:
  "a \<in> set (fst (sizes_stage w tmd baseURL outputDir doDecryption del)) \<Longrightarrow>
   \<not> ticket_action a"
  using cert_stage_no_ticket[of a w tmd _ _ baseURL outputDir doDecryption del]
  by (auto simp: sizes_stage_def prepend_def ticket_action_def
      split: prod.splits option.splits sum.splits if_splits)


text \<open>
  C7, as the code has it. The error of the fetch is not looked at; what counts is the
  flag of the progress reporter. In an acquisition that reaches the ticket (directory
  made, metadata fetched and read, version readable), the ticket is fetched with retries
  off, which is a single GET request. \<^verbatim>\<open>GenerateKey\<close> is called, with the title identifier, exactly when that fetch
  failed and the progress reporter does not report cancellation; \<^verbatim>\<open>GenerateTicket\<close> is
  called exactly when moreover the key was derived, with the ticket path, the title
  identifier of the catalog entry, that key and the version read from the metadata. When
  the fetch failed and the reporter reports cancellation, the acquisition returns
  \<^verbatim>\<open>nil\<close> and neither is called.
\<close>

theorem ticket_fetched_once_else_synthesized:
  fixes w :: world and titleID outputDirectory :: string
  defines "outputDir \<equiv> TrimRight outputDirectory [CHR ''/'', CHR 0x5C]"
    and "baseURL \<equiv> ''http://ccs.cdn.c.shop.nintendowifi.net/ccs/download/'' @ titleID"
  assumes run: "DownloadTitle w titleID outputDirectory doDecryption del = (tr, out)"
    and mk: "mkdirAll_err w = None"
    and tmd_ok: "snd (downloadFile (net w FetchTmd) (baseURL @ ''/tmd'')
                       (Join outputDir ''title.tmd'') True) = None"
    and rf: "readFile w = Inr tmd"
    and ver: "read_slice tmd 476 478 = Inr titleVersion"
    and fetch: "downloadFile (net w FetchTik) (baseURL @ ''/cetk'')
                  (Join outputDir ''title.tik'') False = (evs, r)"
  shows "DownloadFile FetchTik (baseURL @ ''/cetk'') (Join outputDir ''title.tik'') False evs
           \<in> set tr \<and>
         filter is_schedule evs = [ClientDo 1 ''GET'' (baseURL @ ''/cetk'')] \<and>
         (\<forall>t. GenerateKey t \<in> set tr \<longleftrightarrow> t = titleID \<and> r \<noteq> None \<and> \<not> cancelled w PollTik) \<and>
         (\<forall>p t k v. GenerateTicket p t k v \<in> set tr \<longleftrightarrow>
            r \<noteq> None \<and> \<not> cancelled w PollTik \<and> generateKey w = Inr k \<and>
            p = Join outputDir ''title.tik'' \<and> t = TitleID (titleEntry w) \<and> v = titleVersion) \<and>
         (r \<noteq> None \<and> cancelled w PollTik \<longrightarrow> out = Returned None)"
proof -
  obtain rest_tr rest_out where
    sz: "sizes_stage w tmd baseURL outputDir doDecryption del = (rest_tr, rest_out)"
    by (cases "sizes_stage w tmd baseURL outputDir doDecryption del")
  have nt: "\<not> ticket_action a" if "a \<in> set rest_tr" for a
    using sizes_stage_no_ticket[of a w tmd baseURL outputDir doDecryption del] that sz by simp
  have nk: "GenerateKey t \<notin> set rest_tr" for t
    using nt[of "GenerateKey t"] by (auto simp: ticket_action_def)
  have ng: "GenerateTicket p t k v \<notin> set rest_tr" for p t k v
    using nt[of "GenerateTicket p t k v"] by (auto simp: ticket_action_def)
  obtain tmd_evs where td: "downloadFile (net w FetchTmd) (baseURL @ ''/tmd'')
                       (Join outputDir ''title.tmd'') True = (tmd_evs, None)"
    using tmd_ok by (cases "downloadFile (net w FetchTmd) (baseURL @ ''/tmd'')
                       (Join outputDir ''title.tmd'') True") simp
  define front where "front = [SetTotalDownloaded 0, SetGameTitle (Name (titleEntry w)),
      MkdirAll outputDir,
      DownloadFile FetchTmd (baseURL @ ''/tmd'') (Join outputDir ''title.tmd'') True tmd_evs,
      ReadFile (Join outputDir ''title.tmd'')]"
  obtain tik ro where ts: "ticket_stage w titleID titleVersion baseURL outputDir = (tik, ro)"
    by (cases "ticket_stage w titleID titleVersion baseURL outputDir")
  have whole: "(tr, out) = (case ro of Some o' \<Rightarrow> (front @ tik, o')
                             | None \<Rightarrow> (front @ tik @ rest_tr, rest_out))"
    using run mk td rf ver ts sz
    by (simp add: DownloadTitle_def metadata_stage_def Let_def prepend_def front_def
        outputDir_def baseURL_def split: option.splits)
  have once: "filter is_schedule evs = [ClientDo 1 ''GET'' (baseURL @ ''/cetk'')]"
    using downloadFile_no_retry_once[of "net w FetchTik" "baseURL @ ''/cetk''"
        "Join outputDir ''title.tik''"] fetch by simp
  show ?thesis
  proof (cases r)
    case None
    with ts fetch have "tik = [DownloadFile FetchTik (baseURL @ ''/cetk'')
        (Join outputDir ''title.tik'') False evs]" "ro = None"
      by (simp_all add: ticket_stage_def Let_def)
    with whole None once nk ng show ?thesis
      by (auto simp: front_def)
  next
    case (Some err)
    show ?thesis
    proof (cases "cancelled w PollTik")
      case True
      with ts fetch Some have "tik = [DownloadFile FetchTik (baseURL @ ''/cetk'')
        (Join outputDir ''title.tik'') False evs, Cancelled PollTik True]" "ro = Some (Returned None)"
        by (simp_all add: ticket_stage_def Let_def)
      with whole Some True once show ?thesis
        by (auto simp: front_def)
    next
      case False
      show ?thesis
      proof (cases "generateKey w")
        case (Inl kerr)
        with ts fetch Some False have "tik = [DownloadFile FetchTik (baseURL @ ''/cetk'')
          (Join outputDir ''title.tik'') False evs, Cancelled PollTik False, GenerateKey titleID]"
          "ro = Some (Returned (Some kerr))"
          by (simp_all add: ticket_stage_def Let_def)
        with whole Some False Inl once show ?thesis
          by (auto simp: front_def)
      next
        case (Inr key)
        with ts fetch Some False have tik: "tik = [DownloadFile FetchTik (baseURL @ ''/cetk'')
          (Join outputDir ''title.tik'') False evs, Cancelled PollTik False, GenerateKey titleID,
          GenerateTicket (Join outputDir ''title.tik'') (TitleID (titleEntry w)) key titleVersion]"
          by (simp add: ticket_stage_def Let_def split: option.splits)
        with whole Some False Inr once nk ng show ?thesis
          by (cases ro) (auto simp: front_def)
      qed
    qed
  qed
qed



theorem ticket_fetched_once_else_synthesized_witness:
  "GenerateKey ''0005000010101010''
     \<in> set (fst (DownloadTitle world_ok ''0005000010101010'' ''out/'' True False)) \<and>
   GenerateTicket (Join ''out'' ''title.tik'') 0x0005000010101010
       [1, 2, 3, 4, 5, 6, 7, 8, 9, 10, 11, 12, 13, 14, 15, 16] 7
     \<in> set (fst (DownloadTitle world_ok ''0005000010101010'' ''out/'' True False))"
proof -
  have dir: "TrimRight ''out/'' [CHR ''/'', CHR 0x5C] = ''out''"
    by (simp add: TrimRight_def)
  have run: "DownloadTitle world_ok ''0005000010101010'' ''out/'' True False =
      (fst (DownloadTitle world_ok ''0005000010101010'' ''out/'' True False),
       snd (DownloadTitle world_ok ''0005000010101010'' ''out/'' True False))"
    by simp
  have mk: "mkdirAll_err world_ok = None"
    by (simp add: world_ok_def)
  have tmd_ok: "snd (downloadFile (net world_ok FetchTmd)
      ((''http://ccs.cdn.c.shop.nintendowifi.net/ccs/download/'' @ ''0005000010101010'') @ ''/tmd'')
      (Join (TrimRight ''out/'' [CHR ''/'', CHR 0x5C]) ''title.tmd'') True) = None"
    by (simp add: world_ok_def env_ok_transfer)
  have rf: "readFile world_ok = Inr tmd_two_records"
    by (simp add: world_ok_def)
  have fetch: "downloadFile (net world_ok FetchTik)
      ((''http://ccs.cdn.c.shop.nintendowifi.net/ccs/download/'' @ ''0005000010101010'') @ ''/cetk'')
      (Join (TrimRight ''out/'' [CHR ''/'', CHR 0x5C]) ''title.tik'') False =
      ([AcquireRequest 1, AcquireResponse 1,
        ClientDo 1 ''GET''
          ((''http://ccs.cdn.c.shop.nintendowifi.net/ccs/download/'' @ ''0005000010101010'') @ ''/cetk''),
        CloseBodyStream 1, ReleaseRequest 1, ReleaseResponse 1], Some (StatusError 1 404))"
    by (rule downloadFile_404_once) (simp add: world_ok_def)
  have w: "\<not> cancelled world_ok PollTik"
    "generateKey world_ok = Inr [1, 2, 3, 4, 5, 6, 7, 8, 9, 10, 11, 12, 13, 14, 15, 16]"
    "TitleID (titleEntry world_ok) = 0x0005000010101010"
    by (simp_all add: world_ok_def)
  from ticket_fetched_once_else_synthesized[OF run mk tmd_ok rf two_records_reads(1) fetch] w dir
  show ?thesis by simp
qed

text \<open>
  C7, as the spec has it, fails. When the fetch of the ticket fails with the error of
  the cancelled context and the flag of the progress reporter is not set, the key and the
  ticket are made all the same. And when the fetch fails with status 404 and the flag is
  set, nothing is made and the acquisition returns \<^verbatim>\<open>nil\<close>.
\<close>

theorem ticket_synthesis_follows_flag_not_error:
  "snd (downloadFile (net world_ctx_ticket FetchTik)
          ''http://ccs.cdn.c.shop.nintendowifi.net/ccs/download/0005000010101010/cetk''
          (Join ''out'' ''title.tik'') False) = Some ContextErr \<and>
   GenerateKey ''0005000010101010''
     \<in> set (fst (DownloadTitle world_ctx_ticket ''0005000010101010'' ''out/'' True False)) \<and>
   GenerateTicket (Join ''out'' ''title.tik'') 0x0005000010101010
       [1, 2, 3, 4, 5, 6, 7, 8, 9, 10, 11, 12, 13, 14, 15, 16] 7
     \<in> set (fst (DownloadTitle world_ctx_ticket ''0005000010101010'' ''out/'' True False)) \<and>
   snd (downloadFile (net world_404_flagged FetchTik)
          ''http://ccs.cdn.c.shop.nintendowifi.net/ccs/download/0005000010101010/cetk''
          (Join ''out'' ''title.tik'') False) = Some (StatusError 1 404) \<and>
   GenerateKey ''0005000010101010''
     \<notin> set (fst (DownloadTitle world_404_flagged ''0005000010101010'' ''out/'' True False)) \<and>
   snd (DownloadTitle world_404_flagged ''0005000010101010'' ''out/'' True False) = Returned None"
  by (simp add: DownloadTitle_def metadata_stage_def ticket_stage_def sizes_stage_def
      cert_stage_def contents_stage_def decrypt_stage_def content_step_def fetch_h3_def
      has_h3_def prepend_def world_ctx_ticket_def world_404_flagged_def world_ok_def
      env_ok_transfer env_404_transfer env_ctx_transfer
      two_records_reads hex8_examples TrimRight_def Let_def upt_two
      del: read_sizes.simps)

section \<open>The files and the progress of a completed download\<close>

lemma created_in_append [simp]: "created_in (xs @ ys) = created_in xs @ created_in ys"
  by (simp add: created_in_def)

lemma run_attempt_created:
  "set (created_in (fst (run_attempt e url dst doRetries attempt))) \<subseteq> {dst}"
  by (auto simp: run_attempt_def select_stream_def Let_def created_in_def
      split: option.splits if_splits)

lemma run_attempt_break_created:
  "snd (run_attempt e url dst doRetries attempt) = Break \<Longrightarrow>
   set (created_in (fst (run_attempt e url dst doRetries attempt))) = {dst}"
  by (auto simp: run_attempt_def select_stream_def Let_def created_in_def
      split: option.splits if_splits)

lemma run_attempt_continue:
  "snd (run_attempt e url dst doRetries attempt) = Continue \<Longrightarrow> attempt < maxRetries"
  by (auto simp: run_attempt_def select_stream_def Let_def
      split: option.splits if_splits)

lemma attempt_loop_created:
  "attempt_loop env url dst doRetries attempt = (evs, res) \<Longrightarrow>
   set (created_in evs) \<subseteq> {dst} \<and>
   (res = None \<and> attempt \<le> maxRetries \<longrightarrow> set (created_in evs) = {dst})"
proof (induction env url dst doRetries attempt arbitrary: evs res rule: attempt_loop.induct)
  case (1 env url dst doRetries attempt)
  show ?case
  proof (cases "attempt \<le> maxRetries")
    case False
    with "1.prems" show ?thesis by (simp add: attempt_loop.simps created_in_def)
  next
    case le: True
    obtain e1 ctl where ra: "run_attempt (env attempt) url dst doRetries attempt = (e1, ctl)"
      by (cases "run_attempt (env attempt) url dst doRetries attempt")
    from run_attempt_created[of "env attempt" url dst doRetries attempt] ra
    have sub: "set (created_in e1) \<subseteq> {dst}" by simp
    show ?thesis
    proof (cases ctl)
      case Continue
      obtain e2 r2 where rec: "attempt_loop env url dst doRetries (attempt + 1) = (e2, r2)"
        by (cases "attempt_loop env url dst doRetries (attempt + 1)")
      from "1.prems" le ra Continue rec have evs: "evs = e1 @ e2" and res: "res = r2"
        by (subst (asm) attempt_loop.simps; simp)+
      from run_attempt_continue[of "env attempt" url dst doRetries attempt] ra Continue
      have lt: "attempt + 1 \<le> maxRetries" by simp
      from "1.IH"[OF le ra[symmetric] _ rec] Continue
      have ih: "set (created_in e2) \<subseteq> {dst}"
        "res = None \<longrightarrow> set (created_in e2) = {dst}"
        using lt res by auto
      with sub evs show ?thesis by auto
    next
      case Break
      with "1.prems" le ra have "evs = e1" by (subst (asm) attempt_loop.simps) simp
      with run_attempt_break_created[of "env attempt" url dst doRetries attempt] ra Break
      show ?thesis by simp
    next
      case (Return r)
      with "1.prems" le ra have "evs = e1" "res = r" by (subst (asm) attempt_loop.simps; simp)+
      moreover have "r = None \<Longrightarrow> False"
        using ra Return
        by (auto simp: run_attempt_def select_stream_def Let_def split: option.splits if_splits)
      ultimately show ?thesis using sub by auto
    qed
  qed
qed

lemma downloadFile_created:
  assumes "downloadFile env url dst doRetries = (evs, res)"
  shows "set (created_in evs) \<subseteq> {dst}" and "res = None \<Longrightarrow> set (created_in evs) = {dst}"
  using attempt_loop_created[of env url dst doRetries 1 evs res] assms
  by (simp_all add: downloadFile_def maxRetries_def)


lemma created_files_append [simp]:
  "created_files (xs @ ys) = created_files xs \<union> created_files ys"
  by (simp add: created_files_def)

lemma created_files_Cons [simp]:
  "created_files (a # xs) = set (created_by a) \<union> created_files xs"
  by (simp add: created_files_def)

lemma created_files_Nil [simp]: "created_files [] = {}"
  by (simp add: created_files_def)

lemma progress_total_append [simp]:
  "progress_total acc (xs @ ys) = progress_total (progress_total acc xs) ys"
  by (simp add: progress_total_def)

lemma progress_total_Cons [simp]:
  "progress_total acc (a # xs) = progress_total (progress_step acc a) xs"
  by (simp add: progress_total_def)

lemma progress_total_Nil [simp]: "progress_total acc [] = acc"
  by (simp add: progress_total_def)



lemma ID_word_of_record:
  "0xB04 + 0x30 * i + 4 \<le> length (elems tmd) \<Longrightarrow> ID_word tmd i = word_of_nat (record_ID tmd i)"
proof -
  assume "0xB04 + 0x30 * i + 4 \<le> length (elems tmd)"
  then have "unat (ID_word tmd i) = record_ID tmd i"
    unfolding ID_word_def record_ID_def
    by (intro unat_be_word) (simp add: bytes_at_def)
  then show ?thesis by (metis of_nat_unat ucast_id)
qed

lemma size_word_of_record:
  "0xB04 + 0x30 * i + 16 \<le> length (elems tmd) \<Longrightarrow> size_word tmd i = word_of_nat (record_size tmd i)"
  using unat_size_word[of i tmd] by (metis of_nat_unat ucast_id)

lemma content_step_delivers:
  assumes nocancel: "\<forall>s. \<not> cancelled w s"
    and rng: "0xB04 + 0x30 * i + 0x30 \<le> length (elems tmd)"
    and sz: "i < length sizes"
    and st: "content_step w tmd sizes baseURL outputDir i = (evs, ctl)"
  shows "(\<forall>a\<in>set evs. \<not> is_decrypt a) \<and>
         ((ctl = LoopNext \<and> created_files evs = record_files outputDir tmd i \<and>
           (\<forall>acc. progress_total acc evs = acc + sizes ! i)) \<or>
          (\<exists>out. ctl = LoopReturn out \<and> out \<noteq> Returned None))"
proof -
  have id: "content_ID tmd i = Inr (word_of_nat (record_ID tmd i))"
    using rng content_ID_in_range[of i tmd] ID_word_of_record[of i tmd]
    by (simp add: ID_word_def)
  have fl: "content_flags tmd i = Some (record_flags tmd i)"
    using rng by (intro content_flags_in_range) simp
  define cid :: "32 word" where "cid = word_of_nat (record_ID tmd i)"
  obtain e1 r1 where d1: "downloadFile (net w (FetchApp i)) (baseURL @ ''/'' @ hex8 cid)
      (Join outputDir (hex8 cid @ ''.app'')) True = (e1, r1)"
    by (cases "downloadFile (net w (FetchApp i)) (baseURL @ ''/'' @ hex8 cid)
      (Join outputDir (hex8 cid @ ''.app'')) True")
  obtain e3 r3 where d3: "downloadFile (net w (FetchH3 i)) (baseURL @ ''/'' @ hex8 cid @ ''.h3'')
      (Join outputDir (hex8 cid @ ''.h3'')) True = (e3, r3)"
    by (cases "downloadFile (net w (FetchH3 i)) (baseURL @ ''/'' @ hex8 cid @ ''.h3'')
      (Join outputDir (hex8 cid @ ''.h3'')) True")
  note c1 = downloadFile_created[OF d1] and c3 = downloadFile_created[OF d3]
  note d1' = d1[simplified] and d3' = d3[simplified]
  show ?thesis
    using st nocancel sz c1 c3
    by (auto simp: content_step_def fetch_h3_def id fl cid_def[symmetric] d1' d3' Let_def
        has_h3_bit record_files_def is_decrypt_def created_by_def progress_step_def
        split: option.splits if_splits)
qed


lemma content_loop_delivers:
  assumes nocancel: "\<forall>s. \<not> cancelled w s"
    and rng: "\<forall>i\<in>set idx. 0xB04 + 0x30 * i + 0x30 \<le> length (elems tmd) \<and> i < length sizes"
    and lp: "content_loop w tmd sizes baseURL outputDir idx = (evs, r)"
  shows "(\<forall>a\<in>set evs. \<not> is_decrypt a) \<and>
         ((r = None \<and> created_files evs = (\<Union>i\<in>set idx. record_files outputDir tmd i) \<and>
           (\<forall>acc. progress_total acc evs = acc + sum_list (map (\<lambda>i. sizes ! i) idx))) \<or>
          (\<exists>out. r = Some out \<and> out \<noteq> Returned None))"
  using rng lp
proof (induction idx arbitrary: evs r)
  case Nil
  then show ?case by simp
next
  case (Cons i idx)
  obtain e1 ctl where st: "content_step w tmd sizes baseURL outputDir i = (e1, ctl)"
    by (cases "content_step w tmd sizes baseURL outputDir i")
  from Cons.prems(1) have ri: "0xB04 + 0x30 * i + 0x30 \<le> length (elems tmd)" "i < length sizes"
    by simp_all
  note step = content_step_delivers[OF nocancel ri st]
  show ?case
  proof (cases ctl)
    case LoopNext
    obtain e2 r2 where rest: "content_loop w tmd sizes baseURL outputDir idx = (e2, r2)"
      by (cases "content_loop w tmd sizes baseURL outputDir idx")
    from Cons.prems(2) st LoopNext rest have evs: "evs = e1 @ e2" and r: "r = r2" by simp_all
    from Cons.prems(1) have "\<forall>i\<in>set idx. 0xB04 + 0x30 * i + 0x30 \<le> length (elems tmd)
        \<and> i < length sizes" by simp
    from Cons.IH[OF this rest] step LoopNext evs r
    show ?thesis by (auto simp: add.assoc)
  next
    case LoopBreak
    with step show ?thesis by simp
  next
    case (LoopReturn out)
    with Cons.prems(2) st have "evs = e1" "r = Some out" by simp_all
    with step LoopReturn show ?thesis by simp
  qed
qed







lemma long_enough_reads:
  assumes "long_enough tmd"
  shows "\<exists>v. (read_slice tmd 476 478 :: outcome + 16 word) = Inr v"
    and "\<exists>n. (read_slice tmd 478 480 :: outcome + 16 word) = Inr n \<and> unat n = tmd_count tmd"
proof -
  from assms have len: "480 \<le> length (elems tmd)" by (simp add: long_enough_def)
  show "\<exists>v. (read_slice tmd 476 478 :: outcome + 16 word) = Inr v"
    using len by (subst read_slice_in_range) simp_all
  show "\<exists>n. (read_slice tmd 478 480 :: outcome + 16 word) = Inr n \<and> unat n = tmd_count tmd"
    using len
    by (subst read_slice_in_range) (simp_all add: tmd_count_def unat_be_word bytes_at_def)
qed






lemma two_records_fields:
  "record_ID tmd_two_records 0 = 0" "record_ID tmd_two_records (Suc 0) = 1"
  "record_flags tmd_two_records 0 = 0" "record_flags tmd_two_records (Suc 0) = 2"
  "record_size tmd_two_records 0 = 1000" "record_size tmd_two_records (Suc 0) = 2000"
  by (simp_all add: record_ID_def record_flags_def record_size_def bytes_at_def be_value_def
      tmd_two_records_def record_bytes_def nth_append)

lemma world_ok_run:
  "snd (DownloadTitle world_ok ''0005000010101010'' ''out/'' True False) = Returned None"
  by (simp add: DownloadTitle_def metadata_stage_def ticket_stage_def sizes_stage_def
      cert_stage_def contents_stage_def decrypt_stage_def content_step_def fetch_h3_def
      has_h3_def prepend_def world_ok_def env_ok_transfer env_404_transfer
      two_records_reads hex8_examples TrimRight_def Let_def upt_two
      del: read_sizes.simps)


section \<open>The metadata fields as the acquisition uses them\<close>

lemma record_view_append [simp]: "record_view (xs @ ys) = record_view xs @ record_view ys"
  by (simp add: record_view_def)

lemma record_view_Nil [simp]: "record_view [] = []"
  by (simp add: record_view_def)

lemma record_view_Cons [simp]:
  "record_view (a # xs) = (if record_action a then shape a # record_view xs else record_view xs)"
  by (simp add: record_view_def)

lemma content_step_view:
  assumes rng: "0xB04 + 0x30 * i + 0x30 \<le> length (elems tmd)"
    and sz: "i < length sizes" and szv: "sizes ! i = word_of_nat (record_size tmd i)"
    and st: "content_step w tmd sizes baseURL outputDir i = (evs, ctl)"
  shows "(\<exists>rest. expected_record baseURL outputDir tmd i = record_view evs @ rest) \<and>
         (ctl = LoopNext \<longrightarrow> record_view evs = expected_record baseURL outputDir tmd i) \<and>
         ((\<forall>s. \<not> cancelled w s) \<longrightarrow> ctl \<noteq> LoopBreak)"
proof -
  have id: "content_ID tmd i = Inr (word_of_nat (record_ID tmd i))"
    using rng content_ID_in_range[of i tmd] ID_word_of_record[of i tmd]
    by (simp add: ID_word_def)
  have fl: "content_flags tmd i = Some (record_flags tmd i)"
    using rng by (intro content_flags_in_range) simp
  show ?thesis
    using st sz szv
    by (auto simp: content_step_def fetch_h3_def id fl Let_def has_h3_bit
        expected_record_def record_action_def shape_def
        split: prod.splits option.splits if_splits)
qed


lemma content_loop_view:
  assumes rng: "\<forall>i\<in>set idx. 0xB04 + 0x30 * i + 0x30 \<le> length (elems tmd) \<and> i < length sizes
                  \<and> sizes ! i = word_of_nat (record_size tmd i)"
    and lp: "content_loop w tmd sizes baseURL outputDir idx = (evs, r)"
  shows "(\<exists>rest. concat (map (expected_record baseURL outputDir tmd) idx) = record_view evs @ rest) \<and>
         ((\<forall>s. \<not> cancelled w s) \<and> r = None \<longrightarrow>
            record_view evs = concat (map (expected_record baseURL outputDir tmd) idx))"
  using rng lp
proof (induction idx arbitrary: evs r)
  case Nil
  then show ?case by simp
next
  case (Cons i idx)
  obtain e1 ctl where st: "content_step w tmd sizes baseURL outputDir i = (e1, ctl)"
    by (cases "content_step w tmd sizes baseURL outputDir i")
  from Cons.prems(1) have ri: "0xB04 + 0x30 * i + 0x30 \<le> length (elems tmd)"
    "i < length sizes" "sizes ! i = word_of_nat (record_size tmd i)"
    by simp_all
  from content_step_view[OF ri st] obtain rest1 where
    p1: "expected_record baseURL outputDir tmd i = record_view e1 @ rest1"
    and n1: "ctl = LoopNext \<longrightarrow> record_view e1 = expected_record baseURL outputDir tmd i"
    and b1: "(\<forall>s. \<not> cancelled w s) \<longrightarrow> ctl \<noteq> LoopBreak"
    by blast
  show ?case
  proof (cases ctl)
    case LoopNext
    obtain e2 r2 where rest: "content_loop w tmd sizes baseURL outputDir idx = (e2, r2)"
      by (cases "content_loop w tmd sizes baseURL outputDir idx")
    from Cons.prems(2) st LoopNext rest have evs: "evs = e1 @ e2" and r: "r = r2" by simp_all
    from Cons.prems(1) have "\<forall>i\<in>set idx. 0xB04 + 0x30 * i + 0x30 \<le> length (elems tmd)
        \<and> i < length sizes \<and> sizes ! i = word_of_nat (record_size tmd i)" by simp
    from Cons.IH[OF this rest] obtain rest2 where
      p2: "concat (map (expected_record baseURL outputDir tmd) idx) = record_view e2 @ rest2"
      and n2: "(\<forall>s. \<not> cancelled w s) \<and> r2 = None \<longrightarrow>
                 record_view e2 = concat (map (expected_record baseURL outputDir tmd) idx)"
      by blast
    from n1 LoopNext have v1: "record_view e1 = expected_record baseURL outputDir tmd i" by simp
    have "concat (map (expected_record baseURL outputDir tmd) (i # idx))
            = record_view evs @ rest2"
      using v1 p2 evs by simp
    moreover have "(\<forall>s. \<not> cancelled w s) \<and> r = None \<longrightarrow>
            record_view evs = concat (map (expected_record baseURL outputDir tmd) (i # idx))"
      using v1 n2 evs r by simp
    ultimately show ?thesis by blast
  next
    case LoopBreak
    with Cons.prems(2) st have evs: "evs = e1" by simp
    have "concat (map (expected_record baseURL outputDir tmd) (i # idx))
            = record_view evs @ (rest1 @ concat (map (expected_record baseURL outputDir tmd) idx))"
      using p1 evs by simp
    with b1 LoopBreak show ?thesis by blast
  next
    case (LoopReturn out)
    with Cons.prems(2) st have evs: "evs = e1" and r: "r = Some out" by simp_all
    have "concat (map (expected_record baseURL outputDir tmd) (i # idx))
            = record_view evs @ (rest1 @ concat (map (expected_record baseURL outputDir tmd) idx))"
      using p1 evs by simp
    with r show ?thesis by blast
  qed
qed

lemma views_prepend:
  assumes "views w E r" and "\<forall>a\<in>set evs. \<not> record_action a \<and> \<not> is_decrypt a"
  shows "views w E (prepend evs r)"
proof -
  from assms(2) have "record_view evs = []"
    by (induction evs) simp_all
  moreover from assms(2) have "completed (prepend evs r) \<Longrightarrow> completed r"
    by (auto simp: completed_def prepend_def)
  ultimately show ?thesis
    using assms(1) by (auto simp: views_def prepend_def)
qed

lemma views_early:
  assumes "\<forall>a\<in>set evs. \<not> record_action a \<and> \<not> is_decrypt a"
    and "(\<forall>s. \<not> cancelled w s) \<longrightarrow> out \<noteq> Returned None"
  shows "views w E (evs, out)"
proof -
  from assms(1) have "record_view evs = []"
    by (induction evs) simp_all
  with assms show ?thesis
    by (auto simp: views_def completed_def)
qed

lemma contents_stage_views:
  assumes rng: "\<forall>i<unat n. 0xB04 + 0x30 * i + 0x30 \<le> length (elems tmd)"
    and sizes: "sizes = map (size_word tmd) [0..<unat n]"
    and un: "unat n = tmd_count tmd"
  shows "views w (expected_records baseURL outputDir tmd)
           (contents_stage w tmd n sizes baseURL outputDir doDecryption del)"
proof -
  obtain evs r where lp: "content_loop w tmd sizes baseURL outputDir [0..<unat n] = (evs, r)"
    by (cases "content_loop w tmd sizes baseURL outputDir [0..<unat n]")
  have r16: "0xB04 + 0x30 * i + 16 \<le> length (elems tmd)" if "i < unat n" for i
    using rng that by fastforce
  have idx: "\<forall>i\<in>set [0..<unat n]. 0xB04 + 0x30 * i + 0x30 \<le> length (elems tmd)
      \<and> i < length sizes \<and> sizes ! i = word_of_nat (record_size tmd i)"
    using rng sizes r16 by (auto simp: size_word_of_record)
  have acts: "\<forall>a\<in>set evs. loop_action a"
    using content_loop_actions[of _ w tmd sizes baseURL outputDir "[0..<unat n]"] lp by simp
  then have nd: "\<forall>a\<in>set evs. \<not> is_decrypt a"
    by (auto simp: loop_action_def is_decrypt_def split: action.splits)
  have E: "concat (map (expected_record baseURL outputDir tmd) [0..<unat n])
             = expected_records baseURL outputDir tmd"
    by (simp add: expected_records_def un)
  note view' = content_loop_view[OF idx lp, unfolded E]
  have dv: "record_view (fst (decrypt_stage w outputDir doDecryption del)) = []"
    by (simp add: decrypt_stage_def record_action_def)
  show ?thesis
  proof (cases r)
    case None
    have res: "contents_stage w tmd n sizes baseURL outputDir doDecryption del
                 = prepend evs (decrypt_stage w outputDir doDecryption del)"
      using lp None by (simp add: contents_stage_def)
    show ?thesis
      unfolding res views_def using view' None dv
      by (auto simp: prepend_def)
  next
    case (Some out)
    have res: "contents_stage w tmd n sizes baseURL outputDir doDecryption del = (evs, out)"
      using lp Some by (simp add: contents_stage_def)
    have "(\<forall>s. \<not> cancelled w s) \<Longrightarrow> out \<noteq> Returned None"
    proof -
      assume nc: "\<forall>s. \<not> cancelled w s"
      have "\<forall>i\<in>set [0..<unat n]. 0xB04 + 0x30 * i + 0x30 \<le> length (elems tmd) \<and> i < length sizes"
        using idx by simp
      from content_loop_delivers[OF nc this lp] Some show ?thesis by auto
    qed
    with nd have "\<not> (completed (evs, out) \<and> (\<forall>s. \<not> cancelled w s))"
      by (auto simp: completed_def)
    with view' show ?thesis
      unfolding res views_def by auto
  qed
qed


lemma views_wrap:
  assumes "views w E (evs, out)" and "\<forall>a\<in>set front. \<not> record_action a \<and> \<not> is_decrypt a"
  shows "views w E (front @ evs @ [CloseCert], out)"
proof -
  from assms(2) have "record_view front = []"
    by (induction front) simp_all
  then have rv: "record_view (front @ evs @ [CloseCert]) = record_view evs"
    by (simp add: record_action_def)
  from assms(2) have "completed (front @ evs @ [CloseCert], out) \<Longrightarrow> completed (evs, out)"
    by (auto simp: completed_def is_decrypt_def)
  with assms(1) rv show ?thesis
    by (auto simp: views_def)
qed

lemma cert_stage_views:
  assumes rng: "\<forall>i<unat n. 0xB04 + 0x30 * i + 0x30 \<le> length (elems tmd)"
    and sizes: "sizes = map (size_word tmd) [0..<unat n]"
    and un: "unat n = tmd_count tmd"
  shows "views w (expected_records baseURL outputDir tmd)
           (cert_stage w tmd n sizes baseURL outputDir doDecryption del)"
proof -
  obtain evs out where cs:
    "contents_stage w tmd n sizes baseURL outputDir doDecryption del = (evs, out)"
    by (cases "contents_stage w tmd n sizes baseURL outputDir doDecryption del")
  from contents_stage_views[OF assms, of w baseURL outputDir doDecryption del] cs
  have v: "views w (expected_records baseURL outputDir tmd) (evs, out)" by simp
  have wrap: "views w (expected_records baseURL outputDir tmd)
           ([GenerateCert n, CreateCert (Join outputDir ''title.cert''), WriteCert cert,
             LogInfo (Join outputDir ''title.cert'')] @ evs @ [CloseCert], out)" for cert
    by (rule views_wrap[OF v]) (simp add: record_action_def is_decrypt_def)
  show ?thesis
    using cs wrap
    by (auto simp: cert_stage_def Let_def record_action_def is_decrypt_def
        intro!: views_early split: sum.splits option.splits)
qed

lemma long_enough_sizes:
  assumes le: "long_enough tmd" and n: "unat (n :: 16 word) = tmd_count tmd"
  shows "read_sizes tmd [0..<unat n] 0 [] =
     Inr (sum_list (map (\<lambda>i. word_of_nat (record_size tmd i)) [0..<tmd_count tmd]),
          map (size_word tmd) [0..<unat n])"
proof -
  have r16: "0xB04 + 0x30 * i + 16 \<le> length (elems tmd)" if "i < unat n" for i
    using long_enough_record[OF le, of i] that n by simp
  then have "\<forall>i\<in>set [0..<unat n]. 0xB04 + 0x30 * i + 16 \<le> length (elems tmd)"
    by simp
  from read_sizes_in_range[OF this, of 0 "[]"]
  have rs: "read_sizes tmd [0..<unat n] 0 [] =
     Inr (sum_list (map (size_word tmd) [0..<unat n]), map (size_word tmd) [0..<unat n])"
    by simp
  have "map (size_word tmd) [0..<unat n]
          = map (\<lambda>i. word_of_nat (record_size tmd i)) [0..<tmd_count tmd]"
    unfolding n[symmetric]
    by (intro map_cong refl size_word_of_record r16) simp
  with rs show ?thesis by simp
qed

lemma sizes_stage_unfold:
  assumes le: "long_enough tmd"
  shows "\<exists>n. unat n = tmd_count tmd \<and>
     sizes_stage w tmd baseURL outputDir doDecryption del =
       prepend [SetDownloadSize
                  (sum_list (map (\<lambda>i. word_of_nat (record_size tmd i)) [0..<tmd_count tmd]))]
         (cert_stage w tmd n (map (size_word tmd) [0..<unat n]) baseURL outputDir
            doDecryption del)"
proof -
  from long_enough_reads(2)[OF le] obtain n :: "16 word" where
    n: "read_slice tmd 478 480 = Inr n" and un: "unat n = tmd_count tmd" by blast
  from long_enough_sizes[OF le un] n un show ?thesis
    by (intro exI[of _ n]) (simp add: sizes_stage_def)
qed

lemma sizes_stage_views:
  assumes le: "long_enough tmd"
  shows "views w (expected_records baseURL outputDir tmd)
           (sizes_stage w tmd baseURL outputDir doDecryption del)"
proof -
  from sizes_stage_unfold[OF le, of w baseURL outputDir doDecryption del]
  obtain n :: "16 word" where un: "unat n = tmd_count tmd"
    and res: "sizes_stage w tmd baseURL outputDir doDecryption del =
       prepend [SetDownloadSize
                  (sum_list (map (\<lambda>i. word_of_nat (record_size tmd i)) [0..<tmd_count tmd]))]
         (cert_stage w tmd n (map (size_word tmd) [0..<unat n]) baseURL outputDir
            doDecryption del)"
    by blast
  have rng: "\<forall>i<unat n. 0xB04 + 0x30 * i + 0x30 \<le> length (elems tmd)"
    using long_enough_record[OF le] un by simp
  show ?thesis
    unfolding res
    by (rule views_prepend[OF cert_stage_views[OF rng refl un]])
       (simp add: record_action_def is_decrypt_def)
qed

lemma ticket_stage_plain:
  "a \<in> set (fst (ticket_stage w titleID v baseURL outputDir)) \<Longrightarrow>
   \<not> record_action a \<and> \<not> is_decrypt a"
  by (auto simp: ticket_stage_def Let_def record_action_def is_decrypt_def
      split: prod.splits option.splits sum.splits if_splits)

lemma ticket_stage_outcome:
  "ticket_stage w titleID v baseURL outputDir = (tik, Some out) \<Longrightarrow>
   \<forall>s. \<not> cancelled w s \<Longrightarrow> out \<noteq> Returned None"
  by (auto simp: ticket_stage_def Let_def
      split: prod.splits option.splits sum.splits if_splits)

lemma metadata_stage_views:
  assumes rf: "readFile w = Inr tmd" and le: "long_enough tmd"
  shows "views w (expected_records baseURL outputDir tmd)
           (metadata_stage w titleID baseURL outputDir doDecryption del)"
proof -
  let ?E = "expected_records baseURL outputDir tmd"
  obtain evs r where d: "downloadFile (net w FetchTmd) (baseURL @ ''/'' @ ''tmd'')
      (Join outputDir ''title.tmd'') True = (evs, r)"
    by (cases "downloadFile (net w FetchTmd) (baseURL @ ''/'' @ ''tmd'')
      (Join outputDir ''title.tmd'') True")
  note d' = d[simplified]
  from long_enough_reads(1)[OF le] obtain v :: "16 word" where
    v: "read_slice tmd 476 478 = Inr v" by blast
  obtain tik ro where ts: "ticket_stage w titleID v baseURL outputDir = (tik, ro)"
    by (cases "ticket_stage w titleID v baseURL outputDir")
  have plain: "\<forall>a\<in>set tik. \<not> record_action a \<and> \<not> is_decrypt a"
    using ticket_stage_plain[of _ w titleID v baseURL outputDir] ts by simp
  show ?thesis
  proof (cases r)
    case (Some err)
    then show ?thesis
      using d'
      by (auto simp: metadata_stage_def Let_def record_action_def is_decrypt_def
          intro!: views_early)
  next
    case None
    have inner: "views w ?E
        (case ro of Some out \<Rightarrow> (tik, out)
                  | None \<Rightarrow> prepend tik (sizes_stage w tmd baseURL outputDir doDecryption del))"
    proof (cases ro)
      case None
      with views_prepend[OF sizes_stage_views[OF le] plain] show ?thesis by simp
    next
      case (Some out)
      with ticket_stage_outcome[of w titleID v baseURL outputDir tik out] ts plain
      show ?thesis by (auto intro!: views_early)
    qed
    have res: "metadata_stage w titleID baseURL outputDir doDecryption del =
        prepend [DownloadFile FetchTmd (baseURL @ ''/tmd'') (Join outputDir ''title.tmd'') True evs,
                 ReadFile (Join outputDir ''title.tmd'')]
          (case ro of Some out \<Rightarrow> (tik, out)
                    | None \<Rightarrow> prepend tik (sizes_stage w tmd baseURL outputDir doDecryption del))"
      using None
      by (simp add: metadata_stage_def Let_def d' rf v ts split: option.splits)
    show ?thesis
      unfolding res
      by (rule views_prepend[OF inner]) (simp add: record_action_def is_decrypt_def)
  qed
qed

lemma DownloadTitle_views:
  assumes rf: "readFile w = Inr tmd" and le: "long_enough tmd"
  shows "views w (expected_records
                    (''http://ccs.cdn.c.shop.nintendowifi.net/ccs/download/'' @ titleID)
                    (TrimRight outputDirectory [CHR ''/'', CHR 0x5C]) tmd)
           (DownloadTitle w titleID outputDirectory doDecryption del)"
  using metadata_stage_views[OF rf le]
  by (auto simp: DownloadTitle_def Let_def record_action_def is_decrypt_def
      intro!: views_prepend views_early split: option.splits)


lemma loop_action_field_ok: "loop_action a \<Longrightarrow> field_ok tmd a"
  by (auto simp: loop_action_def field_ok_def split: action.splits)

lemma contents_stage_fields:
  "a \<in> set (fst (contents_stage w tmd' n sizes baseURL outputDir doDecryption del)) \<Longrightarrow>
   field_ok tmd a"
  using content_loop_actions[of a w tmd' sizes baseURL outputDir "[0..<unat n]"]
    loop_action_field_ok[of a tmd]
  by (auto simp: contents_stage_def prepend_def decrypt_stage_def field_ok_def
      split: prod.splits option.splits if_splits)

lemma cert_stage_fields:
  assumes "unat n = tmd_count tmd"
  shows "a \<in> set (fst (cert_stage w tmd n sizes baseURL outputDir doDecryption del)) \<Longrightarrow>
         field_ok tmd a"
  using contents_stage_fields[of a w tmd n sizes baseURL outputDir doDecryption del tmd] assms
  by (auto simp: cert_stage_def Let_def field_ok_def
      split: prod.splits option.splits sum.splits if_splits)

lemma sizes_stage_fields:
  assumes le: "long_enough tmd"
  shows "a \<in> set (fst (sizes_stage w tmd baseURL outputDir doDecryption del)) \<Longrightarrow>
         field_ok tmd a"
proof -
  assume a: "a \<in> set (fst (sizes_stage w tmd baseURL outputDir doDecryption del))"
  from sizes_stage_unfold[OF le, of w baseURL outputDir doDecryption del]
  obtain n :: "16 word" where un: "unat n = tmd_count tmd"
    and res: "sizes_stage w tmd baseURL outputDir doDecryption del =
       prepend [SetDownloadSize
                  (sum_list (map (\<lambda>i. word_of_nat (record_size tmd i)) [0..<tmd_count tmd]))]
         (cert_stage w tmd n (map (size_word tmd) [0..<unat n]) baseURL outputDir
            doDecryption del)"
    by blast
  from a show ?thesis
    unfolding res prepend_def
    using cert_stage_fields[OF un, of a w "map (size_word tmd) [0..<unat n]" baseURL outputDir
        doDecryption del]
    by (auto simp: field_ok_def)
qed

lemma sizes_stage_reached:
  assumes le: "long_enough tmd"
  shows "SetDownloadSize (sum_list (map (\<lambda>i. word_of_nat (record_size tmd i))
                            [0..<tmd_count tmd]))
           \<in> set (fst (sizes_stage w tmd baseURL outputDir doDecryption del)) \<and>
         GenerateCert (word_of_nat (tmd_count tmd))
           \<in> set (fst (sizes_stage w tmd baseURL outputDir doDecryption del))"
proof -
  from sizes_stage_unfold[OF le, of w baseURL outputDir doDecryption del]
  obtain n :: "16 word" where un: "unat n = tmd_count tmd"
    and res: "sizes_stage w tmd baseURL outputDir doDecryption del =
       prepend [SetDownloadSize
                  (sum_list (map (\<lambda>i. word_of_nat (record_size tmd i)) [0..<tmd_count tmd]))]
         (cert_stage w tmd n (map (size_word tmd) [0..<unat n]) baseURL outputDir
            doDecryption del)"
    by blast
  from un have n: "n = word_of_nat (tmd_count tmd)"
    by (metis of_nat_unat ucast_id)
  have "GenerateCert n \<in> set (fst (cert_stage w tmd n sizes baseURL outputDir doDecryption del))"
    for sizes
    by (auto simp: cert_stage_def Let_def split: prod.splits option.splits sum.splits)
  then show ?thesis
    unfolding res prepend_def n by simp
qed

lemma ticket_stage_fields:
  assumes "unat v = tmd_version tmd"
  shows "a \<in> set (fst (ticket_stage w titleID v baseURL outputDir)) \<Longrightarrow> field_ok tmd a"
  using assms
  by (auto simp: ticket_stage_def Let_def field_ok_def
      split: prod.splits option.splits sum.splits if_splits)

lemma long_enough_version:
  assumes "long_enough tmd"
  shows "\<exists>v. (read_slice tmd 476 478 :: outcome + 16 word) = Inr v \<and> unat v = tmd_version tmd"
proof -
  from assms have len: "480 \<le> length (elems tmd)" by (simp add: long_enough_def)
  then show ?thesis
    by (subst read_slice_in_range) (simp_all add: tmd_version_def unat_be_word bytes_at_def)
qed

lemma metadata_stage_fields:
  assumes rf: "readFile w = Inr tmd" and le: "long_enough tmd"
  shows "a \<in> set (fst (metadata_stage w titleID baseURL outputDir doDecryption del)) \<Longrightarrow>
         field_ok tmd a"
proof -
  assume a: "a \<in> set (fst (metadata_stage w titleID baseURL outputDir doDecryption del))"
  from long_enough_version[OF le] obtain v :: "16 word" where
    v: "read_slice tmd 476 478 = Inr v" and uv: "unat v = tmd_version tmd" by blast
  note t = ticket_stage_fields[OF uv, of a w titleID baseURL outputDir]
  note z = sizes_stage_fields[OF le, of a w baseURL outputDir doDecryption del]
  from a t z show ?thesis
    by (auto simp: metadata_stage_def Let_def rf v prepend_def field_ok_def
        split: prod.splits option.splits if_splits)
qed

lemma metadata_stage_reached:
  assumes rf: "readFile w = Inr tmd" and le: "long_enough tmd"
    and nocancel: "\<forall>s. \<not> cancelled w s"
    and fin: "completed (metadata_stage w titleID baseURL outputDir doDecryption del)"
  shows "SetDownloadSize (sum_list (map (\<lambda>i. word_of_nat (record_size tmd i))
                            [0..<tmd_count tmd]))
           \<in> set (fst (metadata_stage w titleID baseURL outputDir doDecryption del)) \<and>
         GenerateCert (word_of_nat (tmd_count tmd))
           \<in> set (fst (metadata_stage w titleID baseURL outputDir doDecryption del))"
proof -
  obtain evs r where d: "downloadFile (net w FetchTmd) (baseURL @ ''/'' @ ''tmd'')
      (Join outputDir ''title.tmd'') True = (evs, r)"
    by (cases "downloadFile (net w FetchTmd) (baseURL @ ''/'' @ ''tmd'')
      (Join outputDir ''title.tmd'') True")
  note d' = d[simplified]
  from long_enough_reads(1)[OF le] obtain v :: "16 word" where
    v: "read_slice tmd 476 478 = Inr v" by blast
  obtain tik ro where ts: "ticket_stage w titleID v baseURL outputDir = (tik, ro)"
    by (cases "ticket_stage w titleID v baseURL outputDir")
  have plain: "\<forall>a\<in>set tik. \<not> is_decrypt a"
    using ticket_stage_plain[of _ w titleID v baseURL outputDir] ts by simp
  have r: "r = None"
    using fin nocancel d'
    by (cases r) (auto simp: metadata_stage_def Let_def completed_def is_decrypt_def)
  have res: "metadata_stage w titleID baseURL outputDir doDecryption del =
        prepend [DownloadFile FetchTmd (baseURL @ ''/tmd'') (Join outputDir ''title.tmd'') True evs,
                 ReadFile (Join outputDir ''title.tmd'')]
          (case ro of Some out \<Rightarrow> (tik, out)
                    | None \<Rightarrow> prepend tik (sizes_stage w tmd baseURL outputDir doDecryption del))"
    using r by (simp add: metadata_stage_def Let_def d' rf v ts split: option.splits)
  have ro: "ro = None"
  proof (cases ro)
    case (Some out)
    with ticket_stage_outcome[of w titleID v baseURL outputDir tik out] ts nocancel
    have "out \<noteq> Returned None" by simp
    with fin Some plain show ?thesis
      unfolding res by (auto simp: completed_def prepend_def is_decrypt_def)
  qed simp
  from sizes_stage_reached[OF le, of w baseURL outputDir doDecryption del]
  show ?thesis
    unfolding res ro by (simp add: prepend_def)
qed


text \<open>
  C5. In every acquisition whose metadata buffer is long enough for the fields it
  declares, the version handed to \<^verbatim>\<open>GenerateTicket\<close> is the big-endian 16-bit number at
  offset 476, the content count handed to \<^verbatim>\<open>GenerateCert\<close> is the one at offset 478,
  the total handed to \<^verbatim>\<open>SetDownloadSize\<close> is the sum of the 64-bit sizes of the
  declared records, and the records the acquisition works through are a prefix of the
  declared ones, each read from the table at \<open>0xB04\<close> with stride \<open>0x30\<close>: its 32-bit
  identifier names the content file, its size is added to the counter, and bit \<open>0x2\<close> of
  its flags decides on the integrity-tree file. An acquisition that completes its
  download stage uncancelled works through exactly the declared records.
\<close>

theorem metadata_fields_used_as_laid_out:
  fixes w :: world and titleID outputDirectory :: string
  defines "outputDir \<equiv> TrimRight outputDirectory [CHR ''/'', CHR 0x5C]"
    and "baseURL \<equiv> ''http://ccs.cdn.c.shop.nintendowifi.net/ccs/download/'' @ titleID"
  assumes run: "DownloadTitle w titleID outputDirectory doDecryption del = (tr, out)"
    and rf: "readFile w = Inr tmd" and le: "long_enough tmd"
  shows "(\<forall>p t k v. GenerateTicket p t k v \<in> set tr \<longrightarrow> unat v = tmd_version tmd) \<and>
         (\<forall>n. GenerateCert n \<in> set tr \<longrightarrow> unat n = tmd_count tmd) \<and>
         (\<forall>s. SetDownloadSize s \<in> set tr \<longrightarrow>
              s = sum_list (map (\<lambda>i. word_of_nat (record_size tmd i)) [0..<tmd_count tmd])) \<and>
         (\<exists>rest. expected_records baseURL outputDir tmd = record_view tr @ rest) \<and>
         ((out = Returned None \<or> (\<exists>d b. DecryptContents d b \<in> set tr)) \<and>
          (\<forall>s. \<not> cancelled w s) \<longrightarrow>
            record_view tr = expected_records baseURL outputDir tmd \<and>
            GenerateCert (word_of_nat (tmd_count tmd)) \<in> set tr \<and>
            SetDownloadSize
              (sum_list (map (\<lambda>i. word_of_nat (record_size tmd i)) [0..<tmd_count tmd]))
              \<in> set tr)"
proof -
  let ?start = "[SetTotalDownloaded 0, SetGameTitle (Name (titleEntry w)), MkdirAll outputDir]"
  have fields: "field_ok tmd a" if "a \<in> set tr" for a
  proof -
    from that run
    have "a \<in> set ?start \<or>
          a \<in> set (fst (metadata_stage w titleID baseURL outputDir doDecryption del))"
      by (auto simp: DownloadTitle_def Let_def prepend_def outputDir_def baseURL_def
          split: option.splits)
    with metadata_stage_fields[OF rf le, of a titleID baseURL outputDir doDecryption del]
    show ?thesis by (auto simp: field_ok_def)
  qed
  have one: "\<forall>p t k v. GenerateTicket p t k v \<in> set tr \<longrightarrow> unat v = tmd_version tmd"
    using fields by (force simp: field_ok_def)
  have two: "\<forall>n. GenerateCert n \<in> set tr \<longrightarrow> unat n = tmd_count tmd"
    using fields by (force simp: field_ok_def)
  have three: "\<forall>s. SetDownloadSize s \<in> set tr \<longrightarrow>
              s = sum_list (map (\<lambda>i. word_of_nat (record_size tmd i)) [0..<tmd_count tmd])"
    using fields by (force simp: field_ok_def)
  from DownloadTitle_views[OF rf le, of titleID outputDirectory doDecryption del] run
  have v: "views w (expected_records baseURL outputDir tmd) (tr, out)"
    by (simp add: outputDir_def baseURL_def)
  then have four: "\<exists>rest. expected_records baseURL outputDir tmd = record_view tr @ rest"
    by (simp add: views_def)
  have dec: "is_decrypt (DecryptContents d b)" for d b
    by (simp add: is_decrypt_def)
  have five: "record_view tr = expected_records baseURL outputDir tmd \<and>
            GenerateCert (word_of_nat (tmd_count tmd)) \<in> set tr \<and>
            SetDownloadSize
              (sum_list (map (\<lambda>i. word_of_nat (record_size tmd i)) [0..<tmd_count tmd]))
              \<in> set tr"
    if fin: "out = Returned None \<or> (\<exists>d b. DecryptContents d b \<in> set tr)"
      and nocancel: "\<forall>s. \<not> cancelled w s"
  proof -
    from fin dec have c: "completed (tr, out)"
      unfolding completed_def by fastforce
    with v nocancel have rv: "record_view tr = expected_records baseURL outputDir tmd"
      by (simp add: views_def)
    obtain mtr mout where m:
      "metadata_stage w titleID baseURL outputDir doDecryption del = (mtr, mout)"
      by (cases "metadata_stage w titleID baseURL outputDir doDecryption del")
    have mk: "mkdirAll_err w = None"
      using run fin by (auto simp: DownloadTitle_def Let_def split: option.splits)
    with run m have tr: "tr = ?start @ mtr" and out: "out = mout"
      by (simp_all add: DownloadTitle_def Let_def prepend_def outputDir_def baseURL_def)
    from c tr out have "completed (mtr, mout)"
      by (auto simp: completed_def is_decrypt_def)
    with m have "completed (metadata_stage w titleID baseURL outputDir doDecryption del)"
      by simp
    from metadata_stage_reached[OF rf le nocancel this] m
    show ?thesis using rv tr by simp
  qed
  from one two three four five show ?thesis by blast
qed

lemma world_ok_trace:
  "GenerateTicket (Join ''out'' ''title.tik'') 0x0005000010101010
       [1, 2, 3, 4, 5, 6, 7, 8, 9, 10, 11, 12, 13, 14, 15, 16] 7
     \<in> set (fst (DownloadTitle world_ok ''0005000010101010'' ''out/'' True False))"
  by (simp add: DownloadTitle_def metadata_stage_def ticket_stage_def sizes_stage_def
      prepend_def world_ok_def env_ok_transfer env_404_transfer
      two_records_reads TrimRight_def Let_def upt_two
      del: read_sizes.simps)

theorem metadata_fields_used_as_laid_out_witness:
  "long_enough tmd_two_records \<and>
   GenerateTicket (Join ''out'' ''title.tik'') 0x0005000010101010
       [1, 2, 3, 4, 5, 6, 7, 8, 9, 10, 11, 12, 13, 14, 15, 16] 7
     \<in> set (fst (DownloadTitle world_ok ''0005000010101010'' ''out/'' True False)) \<and>
   tmd_version tmd_two_records = unat (7 :: 16 word) \<and>
   GenerateCert 2 \<in> set (fst (DownloadTitle world_ok ''0005000010101010'' ''out/'' True False)) \<and>
   SetDownloadSize 3000
     \<in> set (fst (DownloadTitle world_ok ''0005000010101010'' ''out/'' True False)) \<and>
   record_view (fst (DownloadTitle world_ok ''0005000010101010'' ''out/'' True False)) =
     [DownloadFile (FetchApp 0)
        ''http://ccs.cdn.c.shop.nintendowifi.net/ccs/download/0005000010101010/00000000''
        (Join ''out'' ''00000000.app'') True [],
      AddToTotalDownloaded 1000,
      DownloadFile (FetchApp 1)
        ''http://ccs.cdn.c.shop.nintendowifi.net/ccs/download/0005000010101010/00000001''
        (Join ''out'' ''00000001.app'') True [],
      AddToTotalDownloaded 2000,
      DownloadFile (FetchH3 1)
        ''http://ccs.cdn.c.shop.nintendowifi.net/ccs/download/0005000010101010/00000001.h3''
        (Join ''out'' ''00000001.h3'') True []]"
proof -
  have dir: "TrimRight ''out/'' [CHR ''/'', CHR 0x5C] = ''out''"
    by (simp add: TrimRight_def)
  have run: "DownloadTitle world_ok ''0005000010101010'' ''out/'' True False =
      (fst (DownloadTitle world_ok ''0005000010101010'' ''out/'' True False),
       snd (DownloadTitle world_ok ''0005000010101010'' ''out/'' True False))"
    by simp
  have rf: "readFile world_ok = Inr tmd_two_records"
    by (simp add: world_ok_def)
  have fin: "snd (DownloadTitle world_ok ''0005000010101010'' ''out/'' True False) = Returned None"
    by (rule world_ok_run)
  have nocancel: "\<forall>s. \<not> cancelled world_ok s"
    by (simp add: world_ok_def)
  have flags: "bit (record_flags tmd_two_records (Suc 0)) (Suc 0)"
    "\<not> bit (record_flags tmd_two_records 0) (Suc 0)"
    by (simp_all add: two_records_fields bit_simps)
  have E: "expected_records
             ''http://ccs.cdn.c.shop.nintendowifi.net/ccs/download/0005000010101010''
             ''out'' tmd_two_records =
     [DownloadFile (FetchApp 0)
        ''http://ccs.cdn.c.shop.nintendowifi.net/ccs/download/0005000010101010/00000000''
        (Join ''out'' ''00000000.app'') True [],
      AddToTotalDownloaded 1000,
      DownloadFile (FetchApp 1)
        ''http://ccs.cdn.c.shop.nintendowifi.net/ccs/download/0005000010101010/00000001''
        (Join ''out'' ''00000001.app'') True [],
      AddToTotalDownloaded 2000,
      DownloadFile (FetchH3 1)
        ''http://ccs.cdn.c.shop.nintendowifi.net/ccs/download/0005000010101010/00000001.h3''
        (Join ''out'' ''00000001.h3'') True []]"
    by (simp add: expected_records_def expected_record_def tmd_two_records_count upt_two
        two_records_fields hex8_examples flags Let_def)
  from metadata_fields_used_as_laid_out[OF run rf tmd_two_records_long_enough] fin nocancel
  have "(\<forall>p t k v. GenerateTicket p t k v
            \<in> set (fst (DownloadTitle world_ok ''0005000010101010'' ''out/'' True False))
          \<longrightarrow> unat v = tmd_version tmd_two_records)"
    and "record_view (fst (DownloadTitle world_ok ''0005000010101010'' ''out/'' True False)) =
       expected_records
         (''http://ccs.cdn.c.shop.nintendowifi.net/ccs/download/'' @ ''0005000010101010'')
         (TrimRight ''out/'' [CHR ''/'', CHR 0x5C]) tmd_two_records"
    and "GenerateCert (word_of_nat (tmd_count tmd_two_records))
           \<in> set (fst (DownloadTitle world_ok ''0005000010101010'' ''out/'' True False))"
    and "SetDownloadSize (sum_list (map (\<lambda>i. word_of_nat (record_size tmd_two_records i))
                            [0..<tmd_count tmd_two_records]))
           \<in> set (fst (DownloadTitle world_ok ''0005000010101010'' ''out/'' True False))"
    by blast+
  with world_ok_trace tmd_two_records_long_enough show ?thesis
    by (simp add: dir E tmd_two_records_count tmd_two_records_version upt_two
        two_records_fields)
qed

end
